(* ===== verification/Prelude.thy ===== *)
theory Prelude
  imports Main "HOL-Library.Word" "HOL-Library.Monad_Syntax"
begin

text \<open>
  Shared vocabulary of the development: the machine types, the error codes of
  include/axiom/common.hpp, fixed arrays and spans with memcpy, the decimal text of unsigned
  numbers (std::to_chars and the unsigned conversions of snprintf) and the generic lemmas on lists
  that the components share.
\<close>

unbundle bit_operations_syntax

section \<open>Machine types\<close>

type_synonym byte = "8 word"
type_synonym u16 = "16 word"
type_synonym u32 = "32 word"
type_synonym u64 = "64 word"
type_synonym i32 = "32 word"

text \<open>A char and a uint8_t share their eight bits: the two directions of reinterpret_cast.\<close>

definition to_char :: "byte \<Rightarrow> char" where
  "to_char b = char_of (unat b)"

definition to_byte :: "char \<Rightarrow> byte" where
  "to_byte c = of_nat (of_char c)"

named_theorems arr_simps "prefixes of arrays after writes"

lemma of_char_less_256: "(of_char c :: nat) < 256"
proof -
  have "of_char c mod 256 = (of_char c :: nat)"
    by (metis char_of_char of_char_of)
  then show ?thesis
    by (metis mod_less_divisor zero_less_numeral)
qed

lemma unat_byte_less [simp]: "unat (b :: byte) < 256"
  using unsigned_less [of b, where ?'a = nat] by simp

lemma to_char_to_byte [simp]: "to_char (to_byte c) = c"
  using of_char_less_256 [of c] by (simp add: to_char_def to_byte_def unat_of_nat)

lemma to_byte_to_char [simp]: "to_byte (to_char b) = b"
  using unat_byte_less [of b] by (simp add: to_char_def to_byte_def del: unat_byte_less)

lemma map_to_char_to_byte [simp]: "map to_char (map to_byte s) = s"
  by (simp add: comp_def)

lemma map_to_byte_to_char [simp]: "map to_byte (map to_char s) = s"
  by (simp add: comp_def)

section \<open>Error codes\<close>

datatype system_error =
  Success | InvalidArgument | BufferUnderflow | BufferOverflow | OutOfMemory | VsockError
| EpollError | SignalfdError | ProcessSpawnError | ProcessWaitError | IoError | ProtocolError
| MountError | NotFound | AstError

text \<open>std::expected: the error is on the left.\<close>

type_synonym 'a result = "system_error + 'a"

primrec to_string_view :: "system_error \<Rightarrow> string" where
  "to_string_view Success = ''Success''"
| "to_string_view InvalidArgument = ''Invalid argument''"
| "to_string_view BufferUnderflow = ''Buffer underflow''"
| "to_string_view BufferOverflow = ''Buffer overflow''"
| "to_string_view OutOfMemory = ''Out of memory''"
| "to_string_view VsockError = ''Virtio vsock error''"
| "to_string_view EpollError = ''Epoll error''"
| "to_string_view SignalfdError = ''Signalfd error''"
| "to_string_view ProcessSpawnError = ''Process spawn error''"
| "to_string_view ProcessWaitError = ''Process wait error''"
| "to_string_view IoError = ''IO error''"
| "to_string_view ProtocolError = ''Protocol error''"
| "to_string_view MountError = ''Mount error''"
| "to_string_view NotFound = ''Not found''"
| "to_string_view AstError = ''AST error''"

text \<open>The enumerators' uint8_t values, which also order the type.\<close>

primrec error_code :: "system_error \<Rightarrow> nat" where
  "error_code Success = 0"
| "error_code InvalidArgument = 1"
| "error_code BufferUnderflow = 2"
| "error_code BufferOverflow = 3"
| "error_code OutOfMemory = 4"
| "error_code VsockError = 5"
| "error_code EpollError = 6"
| "error_code SignalfdError = 7"
| "error_code ProcessSpawnError = 8"
| "error_code ProcessWaitError = 9"
| "error_code IoError = 10"
| "error_code ProtocolError = 11"
| "error_code MountError = 12"
| "error_code NotFound = 13"
| "error_code AstError = 14"

lemma error_code_inj: "error_code a = error_code b \<Longrightarrow> a = b"
  by (cases a; cases b) simp_all

instantiation system_error :: linorder
begin

definition less_eq_system_error :: "system_error \<Rightarrow> system_error \<Rightarrow> bool" where
  "less_eq_system_error a b \<longleftrightarrow> error_code a \<le> error_code b"

definition less_system_error :: "system_error \<Rightarrow> system_error \<Rightarrow> bool" where
  "less_system_error a b \<longleftrightarrow> error_code a < error_code b"

instance
  by standard (auto simp: less_eq_system_error_def less_system_error_def dest: error_code_inj)

end

lemma to_string_view_inj: "to_string_view a = to_string_view b \<Longrightarrow> a = b"
  by (cases a; cases b) simp_all

section \<open>Arrays, spans and memcpy\<close>

text \<open>
  A std::array or std::span is its length and its contents by index. \<open>aput\<close> writes one element,
  \<open>acopy\<close> is memcpy into the array at an offset; the checked \<open>acopy_chk\<close> and \<open>aread_chk\<close> give
  None where C++ has undefined behaviour because the access leaves the array.
\<close>

record 'a arr =
  alen :: nat
  aget :: "nat \<Rightarrow> 'a"

definition anew :: "nat \<Rightarrow> 'a \<Rightarrow> 'a arr" where
  "anew n x = \<lparr>alen = n, aget = (\<lambda>_. x)\<rparr>"

definition aput :: "'a arr \<Rightarrow> nat \<Rightarrow> 'a \<Rightarrow> 'a arr" where
  "aput a i x = a\<lparr>aget := (aget a)(i := x)\<rparr>"

definition acopy :: "'a arr \<Rightarrow> nat \<Rightarrow> 'a list \<Rightarrow> 'a arr" where
  "acopy a off xs =
     a\<lparr>aget := (\<lambda>i. if off \<le> i \<and> i < off + length xs then xs ! (i - off) else aget a i)\<rparr>"

definition apre :: "'a arr \<Rightarrow> nat \<Rightarrow> 'a list" where
  "apre a n = map (aget a) [0..<n]"

definition aread_chk :: "'a arr \<Rightarrow> nat \<Rightarrow> 'a option" where
  "aread_chk a i = (if i < alen a then Some (aget a i) else None)"

definition acopy_chk :: "'a arr \<Rightarrow> nat \<Rightarrow> 'a list \<Rightarrow> 'a arr option" where
  "acopy_chk a off xs = (if off + length xs \<le> alen a then Some (acopy a off xs) else None)"

lemma alen_anew [simp]: "alen (anew n x) = n"
  by (simp add: anew_def)

lemma alen_aput [simp]: "alen (aput a i x) = alen a"
  by (simp add: aput_def)

lemma alen_acopy [simp]: "alen (acopy a off xs) = alen a"
  by (simp add: acopy_def)

lemma aget_aput: "aget (aput a i x) j = (if j = i then x else aget a j)"
  by (simp add: aput_def)

lemma aget_acopy:
  "aget (acopy a off xs) i = (if off \<le> i \<and> i < off + length xs then xs ! (i - off) else aget a i)"
  by (simp add: acopy_def)

lemma length_apre [simp]: "length (apre a n) = n"
  by (simp add: apre_def)

lemma nth_apre [simp]: "i < n \<Longrightarrow> apre a n ! i = aget a i"
  by (simp add: apre_def)

lemma apre_0 [simp]: "apre a 0 = []"
  by (simp add: apre_def)

lemma apre_Suc: "apre a (Suc n) = apre a n @ [aget a n]"
  by (simp add: apre_def)

lemma apre_eqI: "(\<And>i. i < n \<Longrightarrow> aget a i = aget b i) \<Longrightarrow> apre a n = apre b n"
  by (simp add: apre_def)

lemma take_apre: "take m (apre a n) = apre a (min m n)"
  by (simp add: apre_def take_map min_def)

lemma apre_aput_Suc [arr_simps]: "apre (aput a n x) (Suc n) = apre a n @ [x]"
  by (auto simp: apre_Suc aget_aput intro: apre_eqI)

lemma apre_aput_beyond [arr_simps]: "n \<le> i \<Longrightarrow> apre (aput a i x) n = apre a n"
  by (auto simp: aget_aput intro: apre_eqI)

lemma apre_acopy [arr_simps]: "apre (acopy a off xs) (off + length xs) = apre a off @ xs"
  by (rule nth_equalityI) (auto simp: aget_acopy nth_append)

lemma apre_acopy_beyond [arr_simps]: "n \<le> off \<Longrightarrow> apre (acopy a off xs) n = apre a n"
  by (auto simp: aget_acopy intro: apre_eqI)

lemma acopy_Nil [simp]: "acopy a i [] = a"
  by (rule arr.equality) (auto simp: acopy_def fun_eq_iff)

lemma apre_acopy_0 [arr_simps]: "apre (acopy a 0 xs) (length xs) = xs"
  using apre_acopy [of a 0 xs] by simp

text \<open>
  The result of code that can leave C++'s defined behaviour: a value, Fault for undefined behaviour
  or a call of std::terminate, and Out_Of_Fuel where a recursion is cut off by its fuel.
\<close>

datatype 'a run = Done 'a | Fault | Out_Of_Fuel

primrec run_bind :: "'a run \<Rightarrow> ('a \<Rightarrow> 'b run) \<Rightarrow> 'b run" where
  "run_bind (Done x) f = f x"
| "run_bind Fault f = Fault"
| "run_bind Out_Of_Fuel f = Out_Of_Fuel"

primrec run_of :: "'a option \<Rightarrow> 'a run" where
  "run_of (Some x) = Done x"
| "run_of None = Fault"

lemma run_bind_Done: "run_bind m f = Done y \<longleftrightarrow> (\<exists>x. m = Done x \<and> f x = Done y)"
  by (cases m) simp_all

definition run_map :: "('a \<Rightarrow> 'b) \<Rightarrow> 'a run \<Rightarrow> 'b run" where
  "run_map f m = run_bind m (\<lambda>x. Done (f x))"

lemma run_map_simps [simp]:
  "run_map f (Done x) = Done (f x)" "run_map f Fault = Fault" "run_map f Out_Of_Fuel = Out_Of_Fuel"
  by (simp_all add: run_map_def)

lemma run_map_bind: "run_map f (run_bind m g) = run_bind m (\<lambda>x. run_map f (g x))"
  by (cases m) simp_all

lemma run_bind_map: "run_bind (run_map f m) g = run_bind m (\<lambda>x. g (f x))"
  by (cases m) simp_all

lemma run_bind_assoc: "run_bind (run_bind m f) g = run_bind m (\<lambda>x. run_bind (f x) g)"
  by (cases m) simp_all

lemma run_bind_cong [fundef_cong]:
  "m = m' \<Longrightarrow> (\<And>x. m' = Done x \<Longrightarrow> f x = g x) \<Longrightarrow> run_bind m f = run_bind m' g"
  by (cases m') simp_all

lemma run_of_Done: "run_of m = Done x \<longleftrightarrow> m = Some x"
  by (cases m) simp_all

text \<open>A branch that is known to return: which one it was.\<close>

lemma case_sum_Done:
  "(case x of Inl e \<Rightarrow> f e | Inr y \<Rightarrow> g y) = Done z \<longleftrightarrow>
   (\<exists>e. x = Inl e \<and> f e = Done z) \<or> (\<exists>y. x = Inr y \<and> g y = Done z)"
  by (cases x) auto

lemma case_option_Done:
  "(case x of None \<Rightarrow> f | Some y \<Rightarrow> g y) = Done z \<longleftrightarrow>
   (x = None \<and> f = Done z) \<or> (\<exists>y. x = Some y \<and> g y = Done z)"
  by (cases x) auto

lemmas run_cases = run_bind_Done run_of_Done case_sum_Done case_option_Done

section \<open>Lists\<close>

text \<open>The last \<open>n\<close> elements of a list: what a full ring buffer keeps.\<close>

definition last_n :: "nat \<Rightarrow> 'a list \<Rightarrow> 'a list" where
  "last_n n xs = drop (length xs - n) xs"

lemma length_last_n [simp]: "length (last_n n xs) = min n (length xs)"
  by (simp add: last_n_def)

lemma last_n_short [simp]: "length xs \<le> n \<Longrightarrow> last_n n xs = xs"
  by (simp add: last_n_def)

lemma last_n_append: "last_n n (last_n n xs @ ys) = last_n n (xs @ ys)"
  by (cases "length xs \<le> n") (auto simp: last_n_def add.commute)

lemma last_n_snoc_full:
  "length xs = n \<Longrightarrow> 0 < n \<Longrightarrow> last_n n (xs @ [x]) = tl xs @ [x]"
  by (cases xs) (auto simp: last_n_def)

section \<open>Decimal text\<close>

definition digit_char :: "nat \<Rightarrow> char" where
  "digit_char d = char_of (48 + d)"

lemma digit_chars [simp]:
  "digit_char 0 = CHR ''0''" "digit_char (Suc 0) = CHR ''1''" "digit_char 1 = CHR ''1''"
  "digit_char 2 = CHR ''2''" "digit_char 3 = CHR ''3''" "digit_char 4 = CHR ''4''"
  "digit_char 5 = CHR ''5''" "digit_char 6 = CHR ''6''" "digit_char 7 = CHR ''7''"
  "digit_char 8 = CHR ''8''" "digit_char 9 = CHR ''9''"
  by code_simp+

fun decimal :: "nat \<Rightarrow> string" where
  "decimal n = (if n < 10 then [digit_char n] else decimal (n div 10) @ [digit_char (n mod 10)])"

declare decimal.simps [simp del]

lemma decimal_nonempty [simp]: "decimal n \<noteq> []"
  by (subst decimal.simps) simp

text \<open>A number below ten to the \<open>k\<close> has at most \<open>k\<close> digits.\<close>

lemma length_decimal_le: "0 < k \<Longrightarrow> n < 10 ^ k \<Longrightarrow> length (decimal n) \<le> k"
proof (induction k arbitrary: n)
  case 0
  then show ?case by simp
next
  case (Suc k)
  show ?case
  proof (cases "n < 10")
    case True
    then show ?thesis by (subst decimal.simps) simp
  next
    case False
    with Suc.prems have "0 < k" by (cases k) auto
    moreover have "n div 10 < 10 ^ k"
      using Suc.prems by (simp add: less_mult_imp_div_less mult.commute)
    ultimately have "length (decimal (n div 10)) \<le> k"
      by (rule Suc.IH)
    with False show ?thesis by (subst decimal.simps) simp
  qed
qed

lemma decimal_digits: "c \<in> set (decimal n) \<Longrightarrow> 48 \<le> (of_char c :: nat) \<and> (of_char c :: nat) < 58"
proof (induction n rule: decimal.induct)
  case (1 n)
  show ?case
  proof (cases "n < 10")
    case True
    with 1 show ?thesis by (subst (asm) decimal.simps) (simp add: digit_char_def)
  next
    case False
    then have "c \<in> set (decimal (n div 10)) \<or> c = digit_char (n mod 10)"
      using "1.prems" by (subst (asm) decimal.simps) auto
    with "1.IH" [OF False] show ?thesis by (auto simp: digit_char_def)
  qed
qed

lemma length_decimal_u32: "length (decimal (unat (w :: u32))) \<le> 10"
proof -
  have "unat w < 2 ^ 32"
    using unsigned_less [of w, where ?'a = nat] by simp
  then have "unat w < 10 ^ 10" by simp
  then show ?thesis by (intro length_decimal_le) simp_all
qed

text \<open>The value of a decimal text, which reads \<open>decimal\<close> back.\<close>

definition digit_val :: "char \<Rightarrow> nat" where
  "digit_val c = of_char c - 48"

definition decimal_val :: "string \<Rightarrow> nat" where
  "decimal_val s = foldl (\<lambda>acc c. 10 * acc + digit_val c) 0 s"

lemma digit_val_char [simp]: "d < 10 \<Longrightarrow> digit_val (digit_char d) = d"
  by (simp add: digit_val_def digit_char_def)

lemma decimal_val_decimal [simp]: "decimal_val (decimal n) = n"
proof (induction n rule: decimal.induct)
  case (1 n)
  show ?case
  proof (cases "n < 10")
    case True
    then show ?thesis by (subst decimal.simps) (simp add: decimal_val_def)
  next
    case False
    then have "decimal_val (decimal (n div 10)) = n div 10"
      by (rule "1.IH")
    with False show ?thesis
      by (subst decimal.simps) (simp add: decimal_val_def)
  qed
qed

lemma decimal_inj: "decimal m = decimal n \<Longrightarrow> m = n"
  by (metis decimal_val_decimal)

end
