(* ===== verification/Os.thy ===== *)
theory Os
  imports Prelude
begin

text \<open>
  The operating system as the code sees it. The answers of the system calls are a parameter, the
  record \<open>env\<close> of functions of the event log so far and the call's arguments, so that any behaviour of
  the kernel, the peers and the clock is some \<open>env\<close>. Every call is recorded in the log, newest last,
  with the data that it moved: what was sent on a descriptor, what was received from it and how often
  it was closed are functions of the log. \<open>e_fuel\<close> bounds the loops that only the environment can end.
\<close>

section \<open>Events and answers\<close>

datatype 'a sysres = Ok 'a | Err int

abbreviation EINTR :: int where "EINTR \<equiv> 4"
abbreviation EAGAIN :: int where "EAGAIN \<equiv> 11"
abbreviation EBUSY :: int where "EBUSY \<equiv> 16"
abbreviation EEXIST :: int where "EEXIST \<equiv> 17"
abbreviation EINVAL :: int where "EINVAL \<equiv> 22"
abbreviation ENOSYS :: int where "ENOSYS \<equiv> 38"

datatype open_mode = Open_Read | Open_Write | Open_Create_Trunc | Open_Create_Append

datatype epoll_call = Epoll_Create | Epoll_Add int int u32 | Epoll_Mod int int u32
  | Epoll_Del int int | Epoll_Wait int int

datatype file_call = Call_Fstat int | Call_Lseek int u32 | Call_Mkdir string u32
  | Call_Access string | Call_Fcntl int string

datatype process_call = Call_Pipe | Call_Clone | Call_Fork | Call_Pidfd_Open int | Call_Kill int nat
  | Call_Pidfd_Kill int nat | Call_Wait_Pidfd int | Call_Waitpid int bool | Call_Wait_Any
  | Call_Dup2 int int | Call_Chdir string | Call_Exec string "string list" "string list option"

datatype boot_call = Call_Socket | Call_Setsockopt int | Call_Bind int u32 u32 | Call_Listen int int
  | Call_Getpid | Call_Umask nat | Call_Mount string string string "string list" "string option"
  | Call_Sync | Call_Reboot | Call_Print string

datatype signal_call = Call_Signal_Read int | Call_Sigmask "int list" | Call_Signalfd

datatype event =
  EvRead int "byte list" | EvWrite int "byte list" | EvPoll int int | EvClose int
| EvOpen string open_mode u32 | EvAccept int | EvClock | EvCycles | EvSleep nat
| EvEpoll epoll_call | EvFile file_call | EvProcess process_call | EvBoot boot_call
| EvSignal signal_call

type_synonym log = "event list"

text \<open>What a waiting parent learns of a child: exited with a status, or ended by a signal.\<close>

datatype child_end = Exited nat | Signaled nat

record env =
  e_fuel :: nat
  e_read :: "log \<Rightarrow> int \<Rightarrow> nat \<Rightarrow> byte list sysres"
  e_write :: "log \<Rightarrow> int \<Rightarrow> byte list \<Rightarrow> nat sysres"
  e_poll :: "log \<Rightarrow> int \<Rightarrow> int \<Rightarrow> bool"
  e_open :: "log \<Rightarrow> string \<Rightarrow> int sysres"
  e_fstat :: "log \<Rightarrow> int \<Rightarrow> nat option"
  e_lseek :: "log \<Rightarrow> int \<Rightarrow> unit sysres"
  e_epoll_create :: "log \<Rightarrow> int"
  e_epoll_ctl :: "log \<Rightarrow> int \<Rightarrow> int \<Rightarrow> bool"
  e_epoll_wait :: "log \<Rightarrow> int \<Rightarrow> (int \<times> u32) list option"
  e_accept :: "log \<Rightarrow> int \<Rightarrow> int"
  e_pipe :: "log \<Rightarrow> (int \<times> int) option"
  e_clone :: "log \<Rightarrow> (int \<times> int) sysres"
  e_fork :: "log \<Rightarrow> int"
  e_dupfd :: "log \<Rightarrow> int \<Rightarrow> int"
  e_dup2 :: "log \<Rightarrow> int \<Rightarrow> int \<Rightarrow> bool"
  e_pidfd_open :: "log \<Rightarrow> int \<Rightarrow> int"
  e_wait_pidfd :: "log \<Rightarrow> int \<Rightarrow> (int \<times> child_end) option"
  e_waitpid :: "log \<Rightarrow> int \<Rightarrow> (int \<times> child_end) option"
  e_wait_any :: "log \<Rightarrow> bool"
  e_clock_ms :: "log \<Rightarrow> nat"
  e_cycles :: "log \<Rightarrow> u64"
  e_signals :: "log \<Rightarrow> int \<Rightarrow> u32 list option"
  e_access :: "log \<Rightarrow> string \<Rightarrow> bool"
  e_errno :: "log \<Rightarrow> int"
  e_sigmask :: "log \<Rightarrow> bool"
  e_signalfd :: "log \<Rightarrow> int"
  e_socket :: "log \<Rightarrow> int"
  e_sockopt :: "log \<Rightarrow> bool"
  e_bind :: "log \<Rightarrow> bool"
  e_listen :: "log \<Rightarrow> bool"
  e_fcntl :: "log \<Rightarrow> int \<Rightarrow> bool"
  e_getpid :: "log \<Rightarrow> int"
  e_mkdir :: "log \<Rightarrow> string \<Rightarrow> unit sysres"
  e_mount :: "log \<Rightarrow> string \<Rightarrow> unit sysres"

section \<open>System calls\<close>

definition sys_read :: "env \<Rightarrow> int \<Rightarrow> nat \<Rightarrow> log \<Rightarrow> byte list sysres \<times> log" where
  "sys_read env fd n log =
     (case e_read env log fd n of
        Ok bs \<Rightarrow> (Ok (take n bs), log @ [EvRead fd (take n bs)])
      | Err e \<Rightarrow> (Err e, log @ [EvRead fd []]))"

definition sys_write :: "env \<Rightarrow> int \<Rightarrow> byte list \<Rightarrow> log \<Rightarrow> nat sysres \<times> log" where
  "sys_write env fd data log =
     (case e_write env log fd data of
        Ok n \<Rightarrow> (Ok (min n (length data)), log @ [EvWrite fd (take n data)])
      | Err e \<Rightarrow> (Err e, log @ [EvWrite fd []]))"

definition sys_poll :: "env \<Rightarrow> int \<Rightarrow> int \<Rightarrow> log \<Rightarrow> bool \<times> log" where
  "sys_poll env fd timeout log = (e_poll env log fd timeout, log @ [EvPoll fd timeout])"

definition sys_close :: "int \<Rightarrow> log \<Rightarrow> log" where
  "sys_close fd log = log @ [EvClose fd]"

definition sys_open :: "env \<Rightarrow> string \<Rightarrow> open_mode \<Rightarrow> u32 \<Rightarrow> log \<Rightarrow> int sysres \<times> log" where
  "sys_open env path mode perm log = (e_open env log path, log @ [EvOpen path mode perm])"

text \<open>The data that went over a descriptor, and the descriptors closed, in order.\<close>

definition sent1 :: "int \<Rightarrow> event \<Rightarrow> byte list" where
  "sent1 fd ev = (case ev of EvWrite fd' bs \<Rightarrow> if fd' = fd then bs else [] | _ \<Rightarrow> [])"

definition sent :: "int \<Rightarrow> log \<Rightarrow> byte list" where
  "sent fd log = concat (map (sent1 fd) log)"

definition received1 :: "int \<Rightarrow> event \<Rightarrow> byte list" where
  "received1 fd ev = (case ev of EvRead fd' bs \<Rightarrow> if fd' = fd then bs else [] | _ \<Rightarrow> [])"

definition received :: "int \<Rightarrow> log \<Rightarrow> byte list" where
  "received fd log = concat (map (received1 fd) log)"

definition closed1 :: "event \<Rightarrow> int list" where
  "closed1 ev = (case ev of EvClose fd \<Rightarrow> [fd] | _ \<Rightarrow> [])"

definition closed :: "log \<Rightarrow> int list" where
  "closed log = concat (map closed1 log)"

text \<open>Events that only write to, or poll, one descriptor.\<close>

definition writes_only :: "int \<Rightarrow> event \<Rightarrow> bool" where
  "writes_only fd ev \<longleftrightarrow>
     (case ev of EvWrite fd' bs \<Rightarrow> fd' = fd | EvPoll fd' t \<Rightarrow> fd' = fd | _ \<Rightarrow> False)"

named_theorems log_simps "what events add to the summaries of the log"

lemmas event_summaries [log_simps] = sent1_def received1_def closed1_def writes_only_def

lemma sent_append [log_simps]: "sent fd (l @ l') = sent fd l @ sent fd l'"
  by (simp add: sent_def)

lemma sent_Nil [log_simps]: "sent fd [] = []"
  by (simp add: sent_def)

lemma sent_Cons [log_simps]: "sent fd (e # l) = sent1 fd e @ sent fd l"
  by (simp add: sent_def)

lemma received_append [log_simps]: "received fd (l @ l') = received fd l @ received fd l'"
  by (simp add: received_def)

lemma received_Nil [log_simps]: "received fd [] = []"
  by (simp add: received_def)

lemma received_Cons [log_simps]: "received fd (e # l) = received1 fd e @ received fd l"
  by (simp add: received_def)

lemma closed_append [log_simps]: "closed (l @ l') = closed l @ closed l'"
  by (simp add: closed_def)

lemma closed_Nil [log_simps]: "closed [] = []"
  by (simp add: closed_def)

lemma closed_Cons [log_simps]: "closed (e # l) = closed1 e @ closed l"
  by (simp add: closed_def)

section \<open>Writing everything\<close>

text \<open>
  ApplianceServer::write_all: the data that is left is written until nothing is left; an interrupted
  call is repeated, a full pipe is polled for up to five seconds, anything else fails.
\<close>

primrec write_all_loop :: "env \<Rightarrow> nat \<Rightarrow> int \<Rightarrow> byte list \<Rightarrow> log \<Rightarrow> (bool \<times> log) run" where
  "write_all_loop env 0 fd data log = (if data = [] then Done (True, log) else Out_Of_Fuel)"
| "write_all_loop env (Suc fuel) fd data log =
     (if data = [] then Done (True, log)
      else case sys_write env fd data log of
        (Err e, log1) \<Rightarrow>
          if e = EINTR then write_all_loop env fuel fd data log1
          else if e = EAGAIN then
            (case sys_poll env fd 5000 log1 of
               (True, log2) \<Rightarrow> write_all_loop env fuel fd data log2
             | (False, log2) \<Rightarrow> Done (False, log2))
          else Done (False, log1)
      | (Ok n, log1) \<Rightarrow>
          if n = 0 then Done (False, log1)
          else write_all_loop env fuel fd (drop n data) log1)"

definition write_all :: "env \<Rightarrow> int \<Rightarrow> byte list \<Rightarrow> log \<Rightarrow> (bool \<times> log) run" where
  "write_all env fd data log = write_all_loop env (e_fuel env) fd data log"

lemma write_all_loop_spec:
  "write_all_loop env fuel fd data log = Done (ok, log') \<Longrightarrow>
   \<exists>new rest. log' = log @ new \<and> (\<forall>e \<in> set new. writes_only fd e) \<and>
     data = sent fd new @ rest \<and> (ok \<longleftrightarrow> rest = [])"
proof (induction fuel arbitrary: data log)
  case 0
  then show ?case by (auto simp: log_simps split: if_splits)
next
  case (Suc fuel)
  have loop: ?case
    if step: "log1 = log @ pre" "\<forall>e \<in> set pre. writes_only fd e" "data = sent fd pre @ data'"
      and rec: "write_all_loop env fuel fd data' log1 = Done (ok, log')" for pre data' log1
  proof -
    from Suc.IH [OF rec] obtain new rest where
      "log' = log1 @ new" "\<forall>e \<in> set new. writes_only fd e" "data' = sent fd new @ rest"
      "ok \<longleftrightarrow> rest = []" by blast
    with step show ?thesis
      by (intro exI [of _ "pre @ new"] exI [of _ rest]) (auto simp: log_simps)
  qed
  have stop: ?case if "log' = log @ pre" "\<forall>e \<in> set pre. writes_only fd e" "sent fd pre = []"
    "\<not> ok" "data \<noteq> []" for pre
    using that by (intro exI [of _ pre] exI [of _ data]) auto
  show ?case
  proof (cases "data = []")
    case True
    with Suc.prems show ?thesis by (auto simp: log_simps)
  next
    case ne: False
    show ?thesis
    proof (cases "e_write env log fd data")
      case (Ok n)
      show ?thesis
      proof (cases "min n (length data) = 0")
        case True
        with ne have "n = 0" by (auto simp: min_def split: if_splits)
        with Suc.prems ne Ok stop [of "[EvWrite fd []]"] show ?thesis
          by (simp add: sys_write_def log_simps)
      next
        case False
        with Suc.prems ne Ok loop [of _ "[EvWrite fd (take n data)]" "drop n data"]
        show ?thesis
          by (auto simp: sys_write_def log_simps min_def split: if_splits)
      qed
    next
      case (Err e)
      show ?thesis
      proof (cases "e = EINTR \<or> e = EAGAIN \<and> e_poll env (log @ [EvWrite fd []]) fd 5000")
        case True
        with Suc.prems ne Err loop [of _ "[EvWrite fd []]" data]
          loop [of _ "[EvWrite fd [], EvPoll fd 5000]" data]
        show ?thesis
          by (auto simp: sys_write_def sys_poll_def log_simps split: if_splits)
      next
        case False
        with Suc.prems ne Err stop [of "[EvWrite fd []]"] stop [of "[EvWrite fd [], EvPoll fd 5000]"]
        show ?thesis
          by (auto simp: sys_write_def sys_poll_def log_simps split: if_splits)
      qed
    qed
  qed
qed

lemma write_all_spec:
  assumes "write_all env fd data log = Done (ok, log')"
  obtains new rest where "log' = log @ new" "\<forall>e \<in> set new. writes_only fd e"
    "data = sent fd new @ rest" "ok \<longleftrightarrow> rest = []"
  using write_all_loop_spec assms unfolding write_all_def by blast

text \<open>
  A descriptor that is only interrupted or full a bounded number of times: once \<open>r\<close> calls have
  written nothing, no further call asks for a retry.
\<close>

definition idle :: "int \<Rightarrow> log \<Rightarrow> nat" where
  "idle fd log = length (filter (\<lambda>e. e = EvWrite fd []) log)"

definition patient :: "env \<Rightarrow> int \<Rightarrow> nat \<Rightarrow> bool" where
  "patient env fd r \<longleftrightarrow> (\<forall>log data. r \<le> idle fd log \<longrightarrow>
     e_write env log fd data \<noteq> Err EINTR \<and> e_write env log fd data \<noteq> Err EAGAIN)"

lemma idle_snoc [simp]:
  "idle fd (log @ [EvWrite fd []]) = Suc (idle fd log)"
  "idle fd (log @ [EvWrite fd [], EvPoll fd t]) = Suc (idle fd log)"
  "bs \<noteq> [] \<Longrightarrow> idle fd (log @ [EvWrite fd bs]) = idle fd log"
  by (simp_all add: idle_def)

lemma drop_min_length [simp]: "drop (min n (length xs)) xs = drop n xs"
  by (simp add: min_def)

lemma write_all_loop_done:
  assumes "patient env fd r"
  shows "(r - idle fd log) + length data < fuel \<Longrightarrow>
    \<exists>ok log'. write_all_loop env fuel fd data log = Done (ok, log')"
proof (induction fuel arbitrary: data log)
  case 0
  then show ?case by simp
next
  case (Suc fuel)
  show ?case
  proof (cases "e_write env log fd data")
    case (Ok n)
    show ?thesis
    proof (cases "data = [] \<or> n = 0")
      case True
      with Ok show ?thesis by (auto simp: sys_write_def)
    next
      case False
      then have "take n data \<noteq> []" by simp
      moreover have "r - idle fd log + (length data - n) < fuel"
        using Suc.prems False by (cases data) auto
      ultimately show ?thesis using Suc.IH [of "log @ [EvWrite fd (take n data)]" "drop n data"] False Ok
        by (auto simp: sys_write_def)
    qed
  next
    case (Err e)
    show ?thesis
    proof (cases "e = EINTR \<or> e = EAGAIN")
      case True
      then have "\<not> r \<le> idle fd log"
        using assms Err by (auto simp: patient_def)
      with Suc.prems Suc.IH [of "log @ [EvWrite fd []]" data]
        Suc.IH [of "log @ [EvWrite fd [], EvPoll fd 5000]" data] Err
      show ?thesis by (auto simp: sys_write_def sys_poll_def split: bool.splits)
    next
      case False
      with Err show ?thesis by (auto simp: sys_write_def)
    qed
  qed
qed

text \<open>
  C21. write_all is exact: with fuel for the data and a bounded number of retries it returns; it
  touches only its descriptor; what it sent is the data when it returns true, and a proper prefix of
  the data when it returns false.
\<close>

theorem write_all_exact:
  assumes "patient env fd r" and "r + length data < e_fuel env"
  shows "\<exists>ok new rest. write_all env fd data log = Done (ok, log @ new) \<and>
    (\<forall>e \<in> set new. writes_only fd e) \<and> data = sent fd new @ rest \<and> (ok \<longleftrightarrow> rest = [])"
proof -
  have "(r - idle fd log) + length data < e_fuel env" using assms(2) by simp
  from write_all_loop_done [OF assms(1) this] obtain ok log'
    where "write_all env fd data log = Done (ok, log')" unfolding write_all_def by blast
  moreover from this obtain new rest where "log' = log @ new" "\<forall>e \<in> set new. writes_only fd e"
    "data = sent fd new @ rest" "ok \<longleftrightarrow> rest = []" by (rule write_all_spec)
  ultimately show ?thesis by blast
qed

text \<open>An environment in which nothing works, to be updated where an example needs more.\<close>

definition dead_env :: env where
  "dead_env = \<lparr>e_fuel = 0, e_read = (\<lambda>_ _ _. Err EINVAL), e_write = (\<lambda>_ _ _. Err EINVAL),
     e_poll = (\<lambda>_ _ _. False), e_open = (\<lambda>_ _. Err EINVAL), e_fstat = (\<lambda>_ _. None),
     e_lseek = (\<lambda>_ _. Err EINVAL), e_epoll_create = (\<lambda>_. - 1), e_epoll_ctl = (\<lambda>_ _ _. False),
     e_epoll_wait = (\<lambda>_ _. None), e_accept = (\<lambda>_ _. - 1), e_pipe = (\<lambda>_. None),
     e_clone = (\<lambda>_. Err EINVAL), e_fork = (\<lambda>_. - 1), e_dupfd = (\<lambda>_ _. - 1),
     e_dup2 = (\<lambda>_ _ _. False), e_pidfd_open = (\<lambda>_ _. - 1),
     e_wait_pidfd = (\<lambda>_ _. None), e_waitpid = (\<lambda>_ _. None), e_wait_any = (\<lambda>_. False),
     e_clock_ms = (\<lambda>_. 0), e_cycles = (\<lambda>_. 0), e_signals = (\<lambda>_ _. None), e_access = (\<lambda>_ _. False),
     e_errno = (\<lambda>_. EINVAL),
     e_sigmask = (\<lambda>_. False), e_signalfd = (\<lambda>_. - 1), e_socket = (\<lambda>_. - 1),
     e_sockopt = (\<lambda>_. False), e_bind = (\<lambda>_. False), e_listen = (\<lambda>_. False),
     e_fcntl = (\<lambda>_ _. False), e_getpid = (\<lambda>_. 2), e_mkdir = (\<lambda>_ _. Err EINVAL),
     e_mount = (\<lambda>_ _. Err EINVAL)\<rparr>"

text \<open>A descriptor that is interrupted once and then takes two bytes at a time.\<close>

definition slow_env :: env where
  "slow_env = dead_env\<lparr>e_fuel := 10,
     e_write := (\<lambda>log fd data. if log = [] then Err EINTR else Ok 2)\<rparr>"

theorem write_all_exact_witness:
  "\<exists>ok new rest. write_all slow_env 7 [1, 2, 3] [] = Done (ok, [] @ new) \<and>
    (\<forall>e \<in> set new. writes_only 7 e) \<and> [1, 2, 3] = sent 7 new @ rest \<and> (ok \<longleftrightarrow> rest = [])"
proof (rule write_all_exact)
  show "patient slow_env 7 1" by (auto simp: patient_def slow_env_def idle_def)
  show "1 + length [1, 2, 3 :: byte] < e_fuel slow_env" by (simp add: slow_env_def)
qed

end
