(* ===== verification/Runtime.thy ===== *)
theory Runtime
  imports Os
begin

text \<open>
  The thin layers over the kernel: Reactor (include/axiom/reactor.hpp), SignalFd (signalfd.hpp), the
  vsock listener (vsock.hpp) and the mounts of PID 1 (bootstrap.hpp). A handle is its descriptor, -1
  when it owns none; ownership moves are explicit, and a destructor is the function that closes.
\<close>

section \<open>Owned descriptors\<close>

text \<open>
  Reactor and SignalFd own a descriptor alike: the destructor closes it, a move takes it from the
  other handle, and a move assignment closes the one that is replaced.
\<close>

definition reactor_drop :: "int \<Rightarrow> log \<Rightarrow> int \<times> log" where
  "reactor_drop fd log = (if fd \<ge> 0 then (- 1, sys_close fd log) else (fd, log))"

definition reactor_move :: "int \<Rightarrow> int \<times> int" where
  "reactor_move other = (other, - 1)"

definition reactor_assign :: "int \<Rightarrow> int \<Rightarrow> log \<Rightarrow> (int \<times> int) \<times> log" where
  "reactor_assign this other log = ((other, - 1), if this \<ge> 0 then sys_close this log else log)"

text \<open>The same for the signal descriptor, which can also be given away without closing it.\<close>

definition signalfd_drop :: "int \<Rightarrow> log \<Rightarrow> int \<times> log" where
  "signalfd_drop fd log = (if fd \<ge> 0 then (- 1, sys_close fd log) else (fd, log))"

definition signalfd_move :: "int \<Rightarrow> int \<times> int" where
  "signalfd_move other = (other, - 1)"

definition signalfd_assign :: "int \<Rightarrow> int \<Rightarrow> log \<Rightarrow> (int \<times> int) \<times> log" where
  "signalfd_assign this other log = ((other, - 1), if this \<ge> 0 then sys_close this log else log)"

definition signalfd_release :: "int \<Rightarrow> int \<times> int" where
  "signalfd_release fd = (fd, - 1)"

section \<open>Reactor\<close>

definition EPOLLIN :: u32 where "EPOLLIN = 0x001"
definition EPOLLOUT :: u32 where "EPOLLOUT = 0x004"
definition EPOLLERR :: u32 where "EPOLLERR = 0x008"
definition EPOLLHUP :: u32 where "EPOLLHUP = 0x010"
definition EPOLLRDHUP :: u32 where "EPOLLRDHUP = 0x2000"

definition reactor_create :: "env \<Rightarrow> log \<Rightarrow> int result \<times> log" where
  "reactor_create env log =
     (let fd = e_epoll_create env log; log1 = log @ [EvEpoll Epoll_Create]
      in if fd < 0 then (Inl EpollError, log1) else (Inr fd, log1))"

definition reactor_ctl :: "env \<Rightarrow> int \<Rightarrow> int \<Rightarrow> epoll_call \<Rightarrow> log \<Rightarrow> unit result \<times> log" where
  "reactor_ctl env ep fd call log =
     (if e_epoll_ctl env log ep fd then Inr () else Inl EpollError, log @ [EvEpoll call])"

definition reactor_add :: "env \<Rightarrow> int \<Rightarrow> int \<Rightarrow> u32 \<Rightarrow> log \<Rightarrow> unit result \<times> log" where
  "reactor_add env ep fd events log = reactor_ctl env ep fd (Epoll_Add ep fd events) log"

definition reactor_modify :: "env \<Rightarrow> int \<Rightarrow> int \<Rightarrow> u32 \<Rightarrow> log \<Rightarrow> unit result \<times> log" where
  "reactor_modify env ep fd events log = reactor_ctl env ep fd (Epoll_Mod ep fd events) log"

definition reactor_remove :: "env \<Rightarrow> int \<Rightarrow> int \<Rightarrow> log \<Rightarrow> unit result \<times> log" where
  "reactor_remove env ep fd log = reactor_ctl env ep fd (Epoll_Del ep fd) log"

text \<open>wait: at most as many events as the span has room for.\<close>

definition reactor_wait ::
  "env \<Rightarrow> int \<Rightarrow> nat \<Rightarrow> int \<Rightarrow> log \<Rightarrow> (int \<times> u32) list result \<times> log" where
  "reactor_wait env ep room timeout log =
     (if room = 0 then (Inr [], log)
      else (case e_epoll_wait env log timeout of
              None \<Rightarrow> Inl EpollError
            | Some evs \<Rightarrow> Inr (take room evs), log @ [EvEpoll (Epoll_Wait ep timeout)]))"

section \<open>SignalFd\<close>

definition SIGINT :: u32 where "SIGINT = 2"
definition SIGKILL :: nat where "SIGKILL = 9"
definition SIGTERM :: u32 where "SIGTERM = 15"
definition SIGCHLD :: u32 where "SIGCHLD = 17"

definition signalfd_create :: "env \<Rightarrow> int list \<Rightarrow> log \<Rightarrow> int result \<times> log" where
  "signalfd_create env signals log =
     (let log1 = log @ [EvSignal (Call_Sigmask signals)] in
      if \<not> e_sigmask env log then (Inl SignalfdError, log1)
      else let fd = e_signalfd env log1; log2 = log1 @ [EvSignal Call_Signalfd]
           in if fd < 0 then (Inl SignalfdError, log2) else (Inr fd, log2))"

text \<open>
  read_signals: the signal numbers of the entries read, at most as many as there is room for. An
  empty list stands for a read that gave less than one entry.
\<close>

definition read_signals :: "env \<Rightarrow> int \<Rightarrow> nat \<Rightarrow> log \<Rightarrow> u32 list result \<times> log" where
  "read_signals env fd room log =
     (if room = 0 then (Inr [], log)
      else (case e_signals env log fd of
              None \<Rightarrow> Inl SignalfdError
            | Some sigs \<Rightarrow> Inr (take room sigs), log @ [EvSignal (Call_Signal_Read fd)]))"

section \<open>Vsock\<close>

definition DEFAULT_GUEST_PORT :: u32 where "DEFAULT_GUEST_PORT = 5200"
definition VMADDR_CID_ANY :: u32 where "VMADDR_CID_ANY = - 1"
definition DEFAULT_BACKLOG :: int where "DEFAULT_BACKLOG = 16"

definition set_nonblocking_cloexec :: "env \<Rightarrow> int \<Rightarrow> log \<Rightarrow> unit result \<times> log" where
  "set_nonblocking_cloexec env fd log =
     (let l1 = log @ [EvFile (Call_Fcntl fd ''F_GETFL'')] in
      if \<not> e_fcntl env log fd then (Inl IoError, l1)
      else let l2 = l1 @ [EvFile (Call_Fcntl fd ''F_SETFL'')] in
      if \<not> e_fcntl env l1 fd then (Inl IoError, l2)
      else let l3 = l2 @ [EvFile (Call_Fcntl fd ''F_GETFD'')] in
      if \<not> e_fcntl env l2 fd then (Inl IoError, l3)
      else let l4 = l3 @ [EvFile (Call_Fcntl fd ''F_SETFD'')] in
      if \<not> e_fcntl env l3 fd then (Inl IoError, l4) else (Inr (), l4))"

definition create_listener :: "env \<Rightarrow> u32 \<Rightarrow> u32 \<Rightarrow> int \<Rightarrow> log \<Rightarrow> int result \<times> log" where
  "create_listener env port cid backlog log =
     (let fd = e_socket env log; l1 = log @ [EvBoot Call_Socket] in
      if fd < 0 then (Inl VsockError, l1)
      else let l2 = l1 @ [EvBoot (Call_Setsockopt fd)] in
      if \<not> e_sockopt env l1 then (Inl VsockError, sys_close fd l2)
      else let l3 = l2 @ [EvBoot (Call_Bind fd port cid)] in
      if \<not> e_bind env l2 then (Inl VsockError, sys_close fd l3)
      else let l4 = l3 @ [EvBoot (Call_Listen fd backlog)] in
      if \<not> e_listen env l3 then (Inl VsockError, sys_close fd l4)
      else (Inr fd, l4))"

definition accept_connection :: "env \<Rightarrow> int \<Rightarrow> log \<Rightarrow> int result \<times> log" where
  "accept_connection env listen_fd log =
     (let fd = e_accept env log listen_fd; log1 = log @ [EvAccept listen_fd]
      in if fd < 0 then (Inl VsockError, log1) else (Inr fd, log1))"

text \<open>
  create_listener does not leak: when it fails, the socket it made, if any, is closed exactly
  once and nothing else is; when it succeeds, the descriptor it returns is open, was bound to the
  given port and address and is listening.
\<close>

lemma create_listener_no_leak:
  "\<exists>new. snd (create_listener env port cid backlog log) = log @ new \<and>
    (case fst (create_listener env port cid backlog log) of
       Inl e \<Rightarrow> e = VsockError \<and>
         closed new = (if e_socket env log < 0 then [] else [e_socket env log])
     | Inr fd \<Rightarrow> fd = e_socket env log \<and> fd \<ge> 0 \<and> closed new = [] \<and>
         new = [EvBoot Call_Socket, EvBoot (Call_Setsockopt fd), EvBoot (Call_Bind fd port cid),
                EvBoot (Call_Listen fd backlog)])"
  by (auto simp: create_listener_def sys_close_def Let_def log_simps)

section \<open>Bootstrap\<close>

definition ensure_directory :: "env \<Rightarrow> string \<Rightarrow> u32 \<Rightarrow> log \<Rightarrow> unit result \<times> log" where
  "ensure_directory env path mode log =
     (case e_mkdir env log path of
        Ok _ \<Rightarrow> Inr ()
      | Err e \<Rightarrow> if e \<noteq> EEXIST then Inl IoError else Inr (),
      log @ [EvFile (Call_Mkdir path mode)])"

definition mount_fs ::
  "env \<Rightarrow> string \<Rightarrow> string \<Rightarrow> string \<Rightarrow> string list \<Rightarrow> string option \<Rightarrow> log \<Rightarrow> unit result \<times> log" where
  "mount_fs env source target fstype flags data log =
     (case e_mount env log target of
        Ok _ \<Rightarrow> Inr ()
      | Err e \<Rightarrow> if e = EBUSY then Inr () else Inl MountError,
      log @ [EvBoot (Call_Mount source target fstype flags data)])"

text \<open>
  The seven directories and mounts, in the order of the code: the mode of the directory (493 is octal 755, 511 is octal 777), then the
  source, target, type, flags and data of the mount.
\<close>

definition mount_table ::
  "(u32 \<times> string \<times> string \<times> string \<times> string list \<times> string option) list" where
  "mount_table =
     [(493, ''proc'', ''/proc'', ''proc'', [''MS_NOSUID'', ''MS_NODEV'', ''MS_NOEXEC''], None),
      (493, ''sysfs'', ''/sys'', ''sysfs'', [''MS_NOSUID'', ''MS_NODEV'', ''MS_NOEXEC''], None),
      (493, ''devtmpfs'', ''/dev'', ''devtmpfs'', [''MS_NOSUID''], Some ''mode=0755''),
      (493, ''devpts'', ''/dev/pts'', ''devpts'', [''MS_NOSUID'', ''MS_NOEXEC''], None),
      (511, ''tmpfs'', ''/dev/shm'', ''tmpfs'', [''MS_NOSUID'', ''MS_NODEV''], Some ''mode=1777''),
      (511, ''tmpfs'', ''/tmp'', ''tmpfs'', [''MS_NOSUID'', ''MS_NODEV''], Some ''mode=1777''),
      (493, ''tmpfs'', ''/run'', ''tmpfs'', [''MS_NOSUID'', ''MS_NODEV''], Some ''mode=0755'')]"

fun mount_all ::
  "env \<Rightarrow> (u32 \<times> string \<times> string \<times> string \<times> string list \<times> string option) list \<Rightarrow> log \<Rightarrow>
   unit result \<times> log" where
  "mount_all env [] log = (Inr (), log)"
| "mount_all env ((mode, source, target, fstype, flags, data) # rest) log =
     (case ensure_directory env target mode log of
        (Inl e, log1) \<Rightarrow> (Inl e, log1)
      | (Inr _, log1) \<Rightarrow>
          (case mount_fs env source target fstype flags data log1 of
             (Inl e, log2) \<Rightarrow> (Inl e, log2)
           | (Inr _, log2) \<Rightarrow> mount_all env rest log2))"

definition mount_essential_filesystems :: "env \<Rightarrow> log \<Rightarrow> unit result \<times> log" where
  "mount_essential_filesystems env log =
     (let log1 = log @ [EvBoot Call_Getpid] in
      if e_getpid env log \<noteq> 1 then (Inr (), log1)
      else mount_all env mount_table (log1 @ [EvBoot (Call_Umask 18)]))"

definition row_events ::
  "u32 \<times> string \<times> string \<times> string \<times> string list \<times> string option \<Rightarrow> event list" where
  "row_events row =
     (case row of (mode, source, target, fstype, flags, data) \<Rightarrow>
        [EvFile (Call_Mkdir target mode), EvBoot (Call_Mount source target fstype flags data)])"

lemma mount_all_order:
  "\<exists>n. snd (mount_all env table log) = log @ take n (concat (map row_events table)) \<and>
     (case fst (mount_all env table log) of
        Inl e \<Rightarrow> e = IoError \<or> e = MountError
      | Inr _ \<Rightarrow> n = 2 * length table)"
proof (induction table arbitrary: log)
  case Nil
  show ?case by simp
next
  case (Cons row table)
  obtain mode source target fstype flags data where r: "row = (mode, source, target, fstype, flags, data)"
    by (cases row) auto
  let ?d = "ensure_directory env target mode log"
  let ?l1 = "log @ [EvFile (Call_Mkdir target mode)]"
  let ?m = "mount_fs env source target fstype flags data ?l1"
  let ?l2 = "?l1 @ [EvBoot (Call_Mount source target fstype flags data)]"
  have d: "snd ?d = ?l1" and m: "snd ?m = ?l2"
    by (simp_all add: ensure_directory_def mount_fs_def)
  show ?case
  proof (cases "fst ?d")
    case (Inl e)
    then have "e = IoError" by (auto simp: ensure_directory_def split: sysres.splits if_splits)
    moreover have "?d = (Inl e, ?l1)" using Inl d by (simp add: prod_eq_iff)
    ultimately show ?thesis
      by (intro exI [of _ 1]) (simp add: r row_events_def)
  next
    case d1: (Inr u)
    have D: "?d = (Inr u, ?l1)" using d1 d by (simp add: prod_eq_iff)
    show ?thesis
    proof (cases "fst ?m")
      case (Inl e)
      then have "e = MountError" by (auto simp: mount_fs_def split: sysres.splits if_splits)
      moreover have "?m = (Inl e, ?l2)" using Inl m by (simp add: prod_eq_iff)
      ultimately show ?thesis
        by (intro exI [of _ "Suc (Suc 0)"]) (simp add: r row_events_def D)
    next
      case (Inr v)
      obtain n where n: "snd (mount_all env table ?l2) = ?l2 @ take n (concat (map row_events table))"
        "case fst (mount_all env table ?l2) of Inl e \<Rightarrow> e = IoError \<or> e = MountError
         | Inr _ \<Rightarrow> n = 2 * length table"
        using Cons.IH by blast
      have "?m = (Inr v, ?l2)" using Inr m by (simp add: prod_eq_iff)
      then have "mount_all env (row # table) log = mount_all env table ?l2"
        by (simp add: r D)
      with n show ?thesis
        by (intro exI [of _ "Suc (Suc n)"])
          (auto simp: r row_events_def [of "(mode, source, target, fstype, flags, data)"]
            split: sum.splits)
    qed
  qed
qed


end
