(* ===== verification/Ring_Buffer.thy ===== *)
theory Ring_Buffer
  imports Prelude
begin

text \<open>
  axiom::exec::RingBuffer of include/axiom/ring_buffer.hpp: a circular byte buffer that keeps the
  trailing output. The record has the class's members (storage_, head_, tail_, size_ and the 64-bit
  total_written_); the capacity is the length of the storage. The abstract specification is a
  byte list that is cut to its last Capacity elements (\<open>last_n\<close>), stated as the locale
  \<open>trailing_log\<close> that the process runner uses.
\<close>

section \<open>The class\<close>

record ring =
  rb_storage :: "byte arr"
  rb_head :: nat
  rb_tail :: nat
  rb_size :: nat
  rb_total :: u64

definition rb_new :: "nat \<Rightarrow> ring" where
  "rb_new capacity =
     \<lparr>rb_storage = anew capacity 0, rb_head = 0, rb_tail = 0, rb_size = 0, rb_total = 0\<rparr>"

definition rb_capacity :: "ring \<Rightarrow> nat" where
  "rb_capacity r = alen (rb_storage r)"

definition rb_push_byte :: "ring \<Rightarrow> byte \<Rightarrow> ring" where
  "rb_push_byte r b =
     (let r1 = r\<lparr>rb_storage := aput (rb_storage r) (rb_tail r) b,
                 rb_tail := (rb_tail r + 1) mod rb_capacity r\<rparr>;
          r2 = (if rb_size r1 < rb_capacity r1 then r1\<lparr>rb_size := rb_size r1 + 1\<rparr>
                else r1\<lparr>rb_head := (rb_head r1 + 1) mod rb_capacity r1\<rparr>)
      in r2\<lparr>rb_total := rb_total r2 + 1\<rparr>)"

definition rb_write :: "ring \<Rightarrow> byte list \<Rightarrow> nat \<times> ring" where
  "rb_write r data = (length data, foldl rb_push_byte r data)"

fun linearize_loop :: "ring \<Rightarrow> nat \<Rightarrow> nat \<Rightarrow> byte arr \<Rightarrow> byte arr" where
  "linearize_loop r i 0 dest = dest"
| "linearize_loop r i (Suc k) dest =
     linearize_loop r (Suc i) k
       (aput dest i (aget (rb_storage r) ((rb_head r + i) mod rb_capacity r)))"

definition rb_linearize :: "ring \<Rightarrow> byte arr \<Rightarrow> nat \<times> byte arr" where
  "rb_linearize r dest =
     (let to_copy = min (alen dest) (rb_size r) in (to_copy, linearize_loop r 0 to_copy dest))"

definition rb_is_truncated :: "ring \<Rightarrow> bool" where
  "rb_is_truncated r \<longleftrightarrow> rb_total r > of_nat (rb_capacity r)"

definition rb_dropped_bytes :: "ring \<Rightarrow> u64" where
  "rb_dropped_bytes r =
     (if rb_is_truncated r then rb_total r - of_nat (rb_capacity r) else 0)"

definition rb_clear :: "ring \<Rightarrow> ring" where
  "rb_clear r = r\<lparr>rb_head := 0, rb_tail := 0, rb_size := 0, rb_total := 0\<rparr>"

section \<open>Invariant and abstraction\<close>

text \<open>
  The invariant puts the write position right after the stored bytes. It bounds every index the
  class uses: the tail and head are inside the storage, and the read index is taken modulo the
  capacity.
\<close>

definition rb_inv :: "ring \<Rightarrow> bool" where
  "rb_inv r \<longleftrightarrow> 0 < rb_capacity r \<and> rb_size r \<le> rb_capacity r \<and> rb_head r < rb_capacity r \<and>
     rb_tail r = (rb_head r + rb_size r) mod rb_capacity r"

definition rb_contents :: "ring \<Rightarrow> byte list" where
  "rb_contents r =
     map (\<lambda>i. aget (rb_storage r) ((rb_head r + i) mod rb_capacity r)) [0..<rb_size r]"

lemma length_rb_contents [simp]: "length (rb_contents r) = rb_size r"
  by (simp add: rb_contents_def)

lemma rb_capacity_push [simp]: "rb_capacity (rb_push_byte r b) = rb_capacity r"
  by (simp add: rb_push_byte_def rb_capacity_def Let_def)

lemma rb_inv_tail: "rb_inv r \<Longrightarrow> rb_tail r < rb_capacity r"
  by (simp add: rb_inv_def)

lemma rb_inv_push: "rb_inv r \<Longrightarrow> rb_inv (rb_push_byte r b)"
proof -
  assume inv: "rb_inv r"
  show ?thesis
  proof (cases "rb_size r < rb_capacity r")
    case True
    with inv show ?thesis
      by (simp add: rb_inv_def rb_push_byte_def rb_capacity_def Let_def mod_Suc_eq)
  next
    case False
    with inv have "rb_size r = rb_capacity r" by (simp add: rb_inv_def)
    with inv False show ?thesis
      by (simp add: rb_inv_def rb_push_byte_def rb_capacity_def Let_def mod_Suc_eq)
  qed
qed

text \<open>The circular indices of different stored bytes are different.\<close>

lemma circular_neq:
  fixes h i j c :: nat
  assumes "i < j" "j < c"
  shows "(h + i) mod c \<noteq> (h + j) mod c"
proof
  assume "(h + i) mod c = (h + j) mod c"
  then have "c dvd (h + j) - (h + i)"
    using assms by (metis mod_eq_dvd_iff_nat add_le_cancel_left less_imp_le)
  then have "c dvd j - i" by simp
  moreover have "0 < j - i" "j - i < c" using assms by auto
  ultimately show False by (simp add: nat_dvd_not_less)
qed

lemma rb_contents_push:
  assumes inv: "rb_inv r"
  shows "rb_contents (rb_push_byte r b) =
    (if rb_size r < rb_capacity r then rb_contents r @ [b] else tl (rb_contents r) @ [b])"
proof (cases "rb_size r < rb_capacity r")
  case True
  have "(rb_head r + i) mod rb_capacity r \<noteq> rb_tail r" if "i < rb_size r" for i
    using circular_neq [OF that True] inv by (simp add: rb_inv_def)
  with inv True show ?thesis
    by (auto simp: rb_contents_def rb_push_byte_def rb_capacity_def Let_def aget_aput rb_inv_def)
next
  case False
  let ?c = "rb_capacity r"
  let ?at = "\<lambda>i. aget (rb_storage r) ((rb_head r + i) mod ?c)"
  from inv False have c: "0 < ?c" "rb_size r = ?c" "rb_head r < ?c" "rb_tail r = rb_head r"
    by (auto simp: rb_inv_def)
  then obtain m where m: "?c = Suc m" by (cases ?c) auto
  have neq: "(rb_head r + Suc i) mod ?c \<noteq> rb_head r" if "i < m" for i
    using circular_neq [of 0 "Suc i" ?c "rb_head r"] that c m by simp
  have "rb_contents (rb_push_byte r b) =
      map (\<lambda>i. aget (aput (rb_storage r) (rb_head r) b) ((rb_head r + Suc i) mod ?c)) [0..<?c]"
    using False c
    by (simp add: rb_contents_def rb_push_byte_def Let_def rb_capacity_def mod_simps)
  also have "\<dots> = map (\<lambda>i. ?at (Suc i)) [0..<m] @ [b]"
  proof -
    have "(rb_head r + Suc m) mod ?c = rb_head r"
      using c m mod_add_self2 [of "rb_head r" "Suc m"] by simp
    then show ?thesis using neq by (simp add: m aget_aput)
  qed
  also have "map (\<lambda>i. ?at (Suc i)) [0..<m] = tl (rb_contents r)"
    using c m by (simp add: rb_contents_def map_tl upt_conv_Cons map_Suc_upt [symmetric]
        del: upt_Suc map_Suc_upt)
  finally show ?thesis using False by simp
qed

lemma rb_push_refines:
  assumes "rb_inv r"
  shows "rb_contents (rb_push_byte r b) = last_n (rb_capacity r) (rb_contents r @ [b])"
proof (cases "rb_size r < rb_capacity r")
  case True
  with assms show ?thesis by (simp add: rb_contents_push)
next
  case False
  with assms have "length (rb_contents r) = rb_capacity r" "0 < rb_capacity r"
    by (auto simp: rb_inv_def)
  with assms False show ?thesis by (simp add: rb_contents_push last_n_snoc_full)
qed

lemma rb_inv_clear [simp]: "0 < rb_capacity r \<Longrightarrow> rb_inv (rb_clear r)"
  by (simp add: rb_inv_def rb_clear_def rb_capacity_def)

lemma rb_contents_clear [simp]: "rb_contents (rb_clear r) = []"
  by (simp add: rb_contents_def rb_clear_def)

lemma rb_capacity_clear [simp]: "rb_capacity (rb_clear r) = rb_capacity r"
  by (simp add: rb_capacity_def rb_clear_def)

lemma rb_total_clear [simp]: "rb_total (rb_clear r) = 0"
  by (simp add: rb_clear_def)

lemma rb_capacity_new [simp]: "rb_capacity (rb_new n) = n"
  by (simp add: rb_capacity_def rb_new_def)

lemma rb_inv_new [simp]: "0 < n \<Longrightarrow> rb_inv (rb_new n)"
  by (simp add: rb_inv_def rb_new_def rb_capacity_def)

lemma rb_contents_new [simp]: "rb_contents (rb_new n) = []"
  by (simp add: rb_contents_def rb_new_def)

lemma rb_total_push: "rb_total (rb_push_byte r b) = rb_total r + 1"
  by (simp add: rb_push_byte_def Let_def)

section \<open>Linearising\<close>

lemma linearize_loop_alen [simp]: "alen (linearize_loop r i k dest) = alen dest"
  by (induction r i k dest rule: linearize_loop.induct) simp_all

lemma linearize_loop_pre:
  "apre (linearize_loop r i k dest) (i + k) =
   apre dest i @ map (\<lambda>j. aget (rb_storage r) ((rb_head r + j) mod rb_capacity r)) [i..<i + k]"
proof (induction r i k dest rule: linearize_loop.induct)
  case (1 r i dest)
  then show ?case by simp
next
  case (2 r i k dest)
  have "[i..<i + Suc k] = i # [Suc i..<Suc i + k]"
    by (simp add: upt_conv_Cons del: upt_Suc)
  with 2 show ?case by (simp add: arr_simps del: upt_Suc)
qed

lemma rb_linearize_fst: "fst (rb_linearize r dest) = min (alen dest) (rb_size r)"
  by (simp add: rb_linearize_def Let_def)

lemma rb_linearize_pre:
  "apre (snd (rb_linearize r dest)) (fst (rb_linearize r dest)) =
   take (alen dest) (rb_contents r)"
  using linearize_loop_pre [of r 0 "min (alen dest) (rb_size r)" dest]
  by (simp add: rb_linearize_def Let_def rb_contents_def take_map min_def)

lemma rb_linearize_alen [simp]: "alen (snd (rb_linearize r dest)) = alen dest"
  by (simp add: rb_linearize_def Let_def)

section \<open>The contract of a trailing log\<close>

text \<open>
  What the process runner relies on: appending keeps the last bytes up to a fixed bound. The lemmas
  about any sequence of writes are proved from the one-byte law.
\<close>

locale trailing_log =
  fixes push :: "'r \<Rightarrow> 'b \<Rightarrow> 'r"
    and bound :: "'r \<Rightarrow> nat"
    and log :: "'r \<Rightarrow> 'b list"
    and ok :: "'r \<Rightarrow> bool"
  assumes ok_push: "ok r \<Longrightarrow> ok (push r b)"
    and bound_push: "bound (push r b) = bound r"
    and log_push: "ok r \<Longrightarrow> log (push r b) = last_n (bound r) (log r @ [b])"
    and log_bound: "ok r \<Longrightarrow> length (log r) \<le> bound r"
begin

lemma ok_foldl: "ok r \<Longrightarrow> ok (foldl push r bs)"
  by (induction bs arbitrary: r) (simp_all add: ok_push)

lemma bound_foldl: "bound (foldl push r bs) = bound r"
  by (induction bs arbitrary: r) (simp_all add: bound_push)

lemma log_foldl: "ok r \<Longrightarrow> log (foldl push r bs) = last_n (bound r) (log r @ bs)"
proof (induction bs arbitrary: r)
  case Nil
  then show ?case by (simp add: log_bound)
next
  case (Cons b bs)
  then have "log (foldl push (push r b) bs) = last_n (bound r) (last_n (bound r) (log r @ [b]) @ bs)"
    by (simp add: ok_push bound_push log_push)
  also have "\<dots> = last_n (bound r) (log r @ b # bs)"
    by (simp add: last_n_append)
  finally show ?case by simp
qed

lemma log_foldl_twice:
  "ok r \<Longrightarrow> log (foldl push (foldl push r as) bs) = last_n (bound r) (log r @ as @ bs)"
  using log_foldl [of r "as @ bs"] by simp

end

interpretation rb: trailing_log rb_push_byte rb_capacity rb_contents rb_inv
  by unfold_locales (simp_all add: rb_inv_push rb_push_refines, simp add: rb_inv_def)

lemma rb_total_foldl: "rb_total (foldl rb_push_byte r bs) = rb_total r + of_nat (length bs)"
  by (induction bs arbitrary: r) (simp_all add: rb_total_push)

lemma rb_write_simps [simp]:
  "fst (rb_write r bs) = length bs"
  "rb_capacity (snd (rb_write r bs)) = rb_capacity r"
  "rb_total (snd (rb_write r bs)) = rb_total r + of_nat (length bs)"
  by (simp_all add: rb_write_def rb.bound_foldl rb_total_foldl)

lemma rb_inv_write [simp]: "rb_inv r \<Longrightarrow> rb_inv (snd (rb_write r bs))"
  by (simp add: rb_write_def rb.ok_foldl)

lemma rb_contents_write:
  "rb_inv r \<Longrightarrow> rb_contents (snd (rb_write r bs)) = last_n (rb_capacity r) (rb_contents r @ bs)"
  by (simp add: rb_write_def rb.log_foldl)

lemma of_nat_less_u64: "n < 2 ^ 64 \<Longrightarrow> m < 2 ^ 64 \<Longrightarrow> (of_nat m :: u64) < of_nat n \<longleftrightarrow> m < n"
  by (simp add: word_less_nat_alt unat_of_nat)

section \<open>Runs of writes\<close>

text \<open>The chunks that drain_pipe writes one after the other, from an empty buffer.\<close>

definition rb_write_chunks :: "ring \<Rightarrow> byte list list \<Rightarrow> ring" where
  "rb_write_chunks r chunks = foldl (\<lambda>r c. snd (rb_write r c)) r chunks"

lemma rb_write_chunks_concat: "rb_write_chunks r chunks = foldl rb_push_byte r (concat chunks)"
  by (induction chunks arbitrary: r) (simp_all add: rb_write_chunks_def rb_write_def)

lemma rb_write_chunks_log:
  "rb_inv r \<Longrightarrow> rb_inv (rb_write_chunks r chunks) \<and>
     rb_capacity (rb_write_chunks r chunks) = rb_capacity r \<and>
     rb_contents (rb_write_chunks r chunks) =
       last_n (rb_capacity r) (rb_contents r @ concat chunks)"
  by (simp add: rb_write_chunks_concat rb.ok_foldl rb.bound_foldl rb.log_foldl)

lemma rb_write_chunks_total:
  "rb_total (rb_write_chunks r chunks) = rb_total r + of_nat (length (concat chunks))"
  by (simp add: rb_write_chunks_concat rb_total_foldl)

text \<open>
  C11. Whatever chunks are written to a cleared ring buffer, linearising it into a destination of at
  least the capacity yields exactly the last Capacity bytes of everything written, oldest first.
\<close>

theorem ring_keeps_trailing_output:
  assumes "rb_inv r" "rb_capacity r \<le> alen dest"
  shows "apre (snd (rb_linearize (rb_write_chunks (rb_clear r) chunks) dest))
      (fst (rb_linearize (rb_write_chunks (rb_clear r) chunks) dest)) =
    last_n (rb_capacity r) (concat chunks)"
proof -
  have "rb_inv (rb_clear r)" using assms(1) by (simp add: rb_inv_def [of r])
  then have "rb_contents (rb_write_chunks (rb_clear r) chunks) =
      last_n (rb_capacity r) (concat chunks)"
    using rb_write_chunks_log [of "rb_clear r" chunks] by simp
  then show ?thesis
    using assms(2) by (simp add: rb_linearize_pre)
qed

theorem ring_keeps_trailing_output_witness:
  "apre (snd (rb_linearize (rb_write_chunks (rb_clear (rb_new 4)) [[1, 2, 3], [4, 5, 6]]) (anew 8 0)))
     (fst (rb_linearize (rb_write_chunks (rb_clear (rb_new 4)) [[1, 2, 3], [4, 5, 6]]) (anew 8 0)))
   = [3, 4, 5, 6]"
  using ring_keeps_trailing_output [of "rb_new 4" "anew 8 0" "[[1, 2, 3], [4, 5, 6]]"]
  by (simp add: last_n_def)

text \<open>
  The truncation flag and the dropped-byte count are exact as long as the 64-bit counter has not
  wrapped: the flag is set when more than Capacity bytes were written, and the count is the number
  of bytes that linearising no longer returns.
\<close>

lemma ring_truncation_exact:
  assumes "rb_inv r" "length (concat chunks) < 2 ^ 64" "rb_capacity r < 2 ^ 64"
  shows "(rb_is_truncated (rb_write_chunks (rb_clear r) chunks) \<longleftrightarrow>
      rb_capacity r < length (concat chunks)) \<and>
    unat (rb_dropped_bytes (rb_write_chunks (rb_clear r) chunks)) =
      length (concat chunks) - length (rb_contents (rb_write_chunks (rb_clear r) chunks))"
proof -
  let ?n = "length (concat chunks)" and ?r = "rb_write_chunks (rb_clear r) chunks"
  have inv: "rb_inv (rb_clear r)" using assms(1) by (simp add: rb_inv_def [of r])
  have total: "rb_total ?r = of_nat ?n" and cap: "rb_capacity ?r = rb_capacity r"
    and log: "rb_contents ?r = last_n (rb_capacity r) (concat chunks)"
    using rb_write_chunks_log [OF inv, of chunks] by (simp_all add: rb_write_chunks_total)
  have trunc: "rb_is_truncated ?r \<longleftrightarrow> rb_capacity r < ?n"
    using assms(2,3) by (simp add: rb_is_truncated_def total cap of_nat_less_u64)
  have "unat (of_nat ?n - of_nat (rb_capacity r) :: u64) = ?n - rb_capacity r"
    if "rb_capacity r < ?n"
    using that assms(2,3) by (simp add: unat_sub word_le_nat_alt unat_of_nat)
  then show ?thesis
    using trunc by (auto simp: rb_dropped_bytes_def total cap log simp del: length_rb_contents)
qed

end
