(* ===== verification/Ansi.thy ===== *)
theory Ansi
  imports Prelude
begin

text \<open>
  axiom::ansi::AnsiFilter of include/axiom/ansi.hpp: the byte machine that strips escape sequences.
  \<open>process_byte\<close> is the class's switch, with the output span and its index passed along. The
  machine refines a transducer without buffers (\<open>ansi_step\<close>), and the transducer is related to a
  grammar of terminal output: text, CSI sequences, OSC strings and short escapes.
\<close>

section \<open>The class\<close>

datatype state = Ground | Escape | CsiParam | CsiInterm | Osc | OscEsc | EscInterm

instantiation state :: enum
begin

definition enum_state :: "state list" where
  "enum_state = [Ground, Escape, CsiParam, CsiInterm, Osc, OscEsc, EscInterm]"

definition enum_all_state :: "(state \<Rightarrow> bool) \<Rightarrow> bool" where
  "enum_all_state P \<longleftrightarrow> list_all P [Ground, Escape, CsiParam, CsiInterm, Osc, OscEsc, EscInterm]"

definition enum_ex_state :: "(state \<Rightarrow> bool) \<Rightarrow> bool" where
  "enum_ex_state P \<longleftrightarrow> list_ex P [Ground, Escape, CsiParam, CsiInterm, Osc, OscEsc, EscInterm]"

instance
proof
  show univ: "UNIV = set (enum_class.enum :: state list)"
    by (auto simp: enum_state_def intro: state.exhaust)
  show "distinct (enum_class.enum :: state list)"
    by (simp add: enum_state_def)
  show "enum_class.enum_all P \<longleftrightarrow> Ball UNIV (P :: state \<Rightarrow> bool)" for P
    unfolding enum_all_state_def by simp (metis state.exhaust)
  show "enum_class.enum_ex P \<longleftrightarrow> Bex UNIV (P :: state \<Rightarrow> bool)" for P
    unfolding enum_ex_state_def by simp (metis state.exhaust)
qed

end

fun process_byte :: "state \<Rightarrow> byte \<Rightarrow> byte arr \<Rightarrow> nat \<Rightarrow> state \<times> byte arr \<times> nat" where
  "process_byte Ground b out out_idx =
     (if b = 0x1B then (Escape, out, out_idx)
      else if b = 13 then (Ground, out, out_idx)
      else if b = 10 \<or> b = 9 \<or> b \<ge> 0x20 then
        (if out_idx < alen out then (Ground, aput out out_idx b, out_idx + 1)
         else (Ground, out, out_idx))
      else (Ground, out, out_idx))"
| "process_byte Escape b out out_idx =
     (if b = 0x5B then (CsiParam, out, out_idx)
      else if b = 0x5D then (Osc, out, out_idx)
      else if b \<ge> 0x20 \<and> b \<le> 0x2F then (EscInterm, out, out_idx)
      else (Ground, out, out_idx))"
| "process_byte CsiParam b out out_idx =
     (if b \<ge> 0x30 \<and> b \<le> 0x3F then (CsiParam, out, out_idx)
      else if b \<ge> 0x20 \<and> b \<le> 0x2F then (CsiInterm, out, out_idx)
      else if b \<ge> 0x40 \<and> b \<le> 0x7E then (Ground, out, out_idx)
      else if b = 0x1B then (Escape, out, out_idx)
      else (Ground, out, out_idx))"
| "process_byte CsiInterm b out out_idx =
     (if b \<ge> 0x20 \<and> b \<le> 0x2F then (CsiInterm, out, out_idx)
      else if b \<ge> 0x40 \<and> b \<le> 0x7E then (Ground, out, out_idx)
      else if b = 0x1B then (Escape, out, out_idx)
      else (Ground, out, out_idx))"
| "process_byte Osc b out out_idx =
     (if b = 0x07 then (Ground, out, out_idx)
      else if b = 0x1B then (OscEsc, out, out_idx)
      else (Osc, out, out_idx))"
| "process_byte OscEsc b out out_idx =
     (if b = 0x5C then (Ground, out, out_idx)
      else if b = 0x5B then (CsiParam, out, out_idx)
      else if b \<noteq> 0x1B then (Escape, out, out_idx)
      else (OscEsc, out, out_idx))"
| "process_byte EscInterm b out out_idx = (Ground, out, out_idx)"

fun filter_loop :: "state \<Rightarrow> byte list \<Rightarrow> byte arr \<Rightarrow> nat \<Rightarrow> state \<times> byte arr \<times> nat" where
  "filter_loop s [] out out_idx = (s, out, out_idx)"
| "filter_loop s (b # bs) out out_idx =
     (case process_byte s b out out_idx of (s', out', out_idx') \<Rightarrow> filter_loop s' bs out' out_idx')"

text \<open>filter returns the number of bytes written; the state stays in the object.\<close>

definition ansi_filter :: "state \<Rightarrow> byte list \<Rightarrow> byte arr \<Rightarrow> nat \<times> state \<times> byte arr" where
  "ansi_filter s input output =
     (case filter_loop s input output 0 of (s', out', n) \<Rightarrow> (n, s', out'))"

definition ansi_reset :: "state \<Rightarrow> state" where
  "ansi_reset s = Ground"

definition strip_ansi :: "byte list \<Rightarrow> byte arr \<Rightarrow> nat \<times> byte arr" where
  "strip_ansi input dest = (case ansi_filter Ground input dest of (n, _, out) \<Rightarrow> (n, out))"

section \<open>The transducer\<close>

definition printable :: "byte \<Rightarrow> bool" where
  "printable b \<longleftrightarrow> b = 10 \<or> b = 9 \<or> b \<ge> 0x20"

fun ansi_next :: "state \<Rightarrow> byte \<Rightarrow> state" where
  "ansi_next Ground b = (if b = 0x1B then Escape else Ground)"
| "ansi_next Escape b =
     (if b = 0x5B then CsiParam else if b = 0x5D then Osc
      else if b \<ge> 0x20 \<and> b \<le> 0x2F then EscInterm else Ground)"
| "ansi_next CsiParam b =
     (if b \<ge> 0x30 \<and> b \<le> 0x3F then CsiParam else if b \<ge> 0x20 \<and> b \<le> 0x2F then CsiInterm
      else if b = 0x1B then Escape else Ground)"
| "ansi_next CsiInterm b =
     (if b \<ge> 0x20 \<and> b \<le> 0x2F then CsiInterm else if b = 0x1B then Escape else Ground)"
| "ansi_next Osc b = (if b = 0x07 then Ground else if b = 0x1B then OscEsc else Osc)"
| "ansi_next OscEsc b =
     (if b = 0x5C then Ground else if b = 0x5B then CsiParam
      else if b = 0x1B then OscEsc else Escape)"
| "ansi_next EscInterm b = Ground"

definition ansi_emit :: "state \<Rightarrow> byte \<Rightarrow> byte list" where
  "ansi_emit s b = (if s = Ground \<and> printable b then [b] else [])"

fun ansi_state :: "state \<Rightarrow> byte list \<Rightarrow> state" where
  "ansi_state s [] = s"
| "ansi_state s (b # bs) = ansi_state (ansi_next s b) bs"

fun ansi_text :: "state \<Rightarrow> byte list \<Rightarrow> byte list" where
  "ansi_text s [] = []"
| "ansi_text s (b # bs) = ansi_emit s b @ ansi_text (ansi_next s b) bs"

lemma ansi_state_append [simp]: "ansi_state s (xs @ ys) = ansi_state (ansi_state s xs) ys"
  by (induction s xs rule: ansi_state.induct) simp_all

lemma ansi_text_append [simp]:
  "ansi_text s (xs @ ys) = ansi_text s xs @ ansi_text (ansi_state s xs) ys"
  by (induction s xs rule: ansi_text.induct) simp_all

text \<open>One byte of the class is one step of the transducer, written if there is room.\<close>

lemma not_printable_esc [simp]: "\<not> printable 0x1B" "\<not> printable 13"
  by (simp_all add: printable_def)

lemma process_byte_refines:
  "process_byte s b out i =
     (ansi_next s b,
      (if ansi_emit s b \<noteq> [] \<and> i < alen out then aput out i b else out),
      (if ansi_emit s b \<noteq> [] \<and> i < alen out then i + 1 else i))"
  by (cases s) (auto simp: ansi_emit_def printable_def)

lemma filter_loop_refines:
  "i \<le> alen out \<Longrightarrow> \<exists>out' n.
     filter_loop s bs out i = (ansi_state s bs, out', n) \<and> alen out' = alen out \<and>
     n = min (alen out) (i + length (ansi_text s bs)) \<and>
     apre out' n = take (alen out) (apre out i @ ansi_text s bs)"
proof (induction bs arbitrary: s out i)
  case Nil
  then show ?case by simp
next
  case (Cons b bs)
  show ?case
  proof (cases "ansi_emit s b = []")
    case True
    with Cons.IH [OF Cons.prems, of "ansi_next s b"] show ?thesis
      by (simp add: process_byte_refines)
  next
    case False
    then have emit: "ansi_emit s b = [b]" by (simp add: ansi_emit_def split: if_splits)
    show ?thesis
    proof (cases "i < alen out")
      case True
      with Cons.IH [of "Suc i" "aput out i b" "ansi_next s b"] emit show ?thesis
        by (simp add: process_byte_refines arr_simps)
    next
      case full: False
      with Cons.prems have "i = alen out" by simp
      with Cons.IH [OF Cons.prems, of "ansi_next s b"] emit show ?thesis
        by (simp add: process_byte_refines)
    qed
  qed
qed

lemma ansi_filter_refines:
  "\<exists>out'. ansi_filter s bs out =
      (min (alen out) (length (ansi_text s bs)), ansi_state s bs, out') \<and>
     alen out' = alen out \<and>
     apre out' (min (alen out) (length (ansi_text s bs))) = take (alen out) (ansi_text s bs)"
  using filter_loop_refines [of 0 out s bs] by (auto simp: ansi_filter_def)

lemma ansi_text_printable: "\<forall>b \<in> set (ansi_text s bs). printable b"
  by (induction s bs rule: ansi_text.induct) (auto simp: ansi_emit_def)

lemma ansi_text_length: "length (ansi_text s bs) \<le> length bs"
proof (induction s bs rule: ansi_text.induct)
  case (2 s b bs)
  have "length (ansi_emit s b) \<le> 1" by (simp add: ansi_emit_def)
  with 2 show ?case by simp
qed simp

lemma ansi_text_plain: "\<forall>b \<in> set bs. b \<noteq> 0x1B \<Longrightarrow>
  ansi_text Ground bs = filter printable bs \<and> ansi_state Ground bs = Ground"
  by (induction bs) (auto simp: ansi_emit_def)

section \<open>Terminal output as a grammar\<close>

text \<open>
  A document is a sequence of tokens; \<open>render\<close> gives its bytes and \<open>visible\<close> the text a reader
  sees. Well-formedness is the shape that ECMA-48 gives each sequence: parameter bytes 0x30 to
  0x3F, intermediate bytes 0x20 to 0x2F and a final byte 0x40 to 0x7E for CSI; an operating system
  command ended by BEL or by ESC backslash; an escape with no or one intermediate byte.
\<close>

datatype token =
  Text "byte list"
| Csi "byte list" "byte list" byte
| OscBel "byte list"
| OscSt "byte list"
| EscShort byte
| EscNf byte byte

fun token_ok :: "token \<Rightarrow> bool" where
  "token_ok (Text bs) = (\<forall>b \<in> set bs. b \<noteq> 0x1B)"
| "token_ok (Csi ps is f) =
     ((\<forall>b \<in> set ps. b \<ge> 0x30 \<and> b \<le> 0x3F) \<and> (\<forall>b \<in> set is. b \<ge> 0x20 \<and> b \<le> 0x2F) \<and>
      f \<ge> 0x40 \<and> f \<le> 0x7E)"
| "token_ok (OscBel bs) = (\<forall>b \<in> set bs. b \<noteq> 0x1B \<and> b \<noteq> 0x07)"
| "token_ok (OscSt bs) = (\<forall>b \<in> set bs. b \<noteq> 0x1B \<and> b \<noteq> 0x07)"
| "token_ok (EscShort f) = (f \<ge> 0x30 \<and> f \<le> 0x7E \<and> f \<noteq> 0x5B \<and> f \<noteq> 0x5D)"
| "token_ok (EscNf i f) = (i \<ge> 0x20 \<and> i \<le> 0x2F \<and> f \<ge> 0x30 \<and> f \<le> 0x7E)"

fun token_bytes :: "token \<Rightarrow> byte list" where
  "token_bytes (Text bs) = bs"
| "token_bytes (Csi ps is f) = [0x1B, 0x5B] @ ps @ is @ [f]"
| "token_bytes (OscBel bs) = [0x1B, 0x5D] @ bs @ [0x07]"
| "token_bytes (OscSt bs) = [0x1B, 0x5D] @ bs @ [0x1B, 0x5C]"
| "token_bytes (EscShort f) = [0x1B, f]"
| "token_bytes (EscNf i f) = [0x1B, i, f]"

fun token_visible :: "token \<Rightarrow> byte list" where
  "token_visible (Text bs) = filter printable bs"
| "token_visible _ = []"

definition render :: "token list \<Rightarrow> byte list" where
  "render ts = concat (map token_bytes ts)"

definition visible :: "token list \<Rightarrow> byte list" where
  "visible ts = concat (map token_visible ts)"

text \<open>Outside Ground the machine writes nothing, and each body keeps it in its state.\<close>

lemma csi_params:
  "\<forall>b \<in> set ps. b \<ge> 0x30 \<and> b \<le> 0x3F \<Longrightarrow>
   ansi_state CsiParam ps = CsiParam \<and> ansi_text CsiParam ps = []"
  by (induction ps) (auto simp: ansi_emit_def)

lemma csi_interms:
  "\<forall>b \<in> set is. b \<ge> 0x20 \<and> b \<le> 0x2F \<Longrightarrow>
   ansi_state CsiInterm is = CsiInterm \<and> ansi_text CsiInterm is = []"
  by (induction "is") (auto simp: ansi_emit_def)

lemma osc_body:
  "\<forall>b \<in> set bs. b \<noteq> 0x1B \<and> b \<noteq> 0x07 \<Longrightarrow> ansi_state Osc bs = Osc \<and> ansi_text Osc bs = []"
  by (induction bs) (auto simp: ansi_emit_def)

lemma csi_tail:
  assumes "\<forall>b \<in> set is. b \<ge> 0x20 \<and> b \<le> 0x2F" "(f :: byte) \<ge> 0x40" "f \<le> 0x7E"
  shows "ansi_state CsiParam (is @ [f]) = Ground \<and> ansi_text CsiParam (is @ [f]) = []"
proof (cases "is")
  case Nil
  from assms(2,3) have "\<not> f \<le> 0x3F" "\<not> f \<le> 0x2F" "f \<noteq> 0x1B"
    by (auto simp: word_le_nat_alt)
  then show ?thesis by (simp add: Nil ansi_emit_def)
next
  case (Cons i js)
  from assms(2,3) have f: "\<not> f \<le> 0x2F" "f \<noteq> 0x1B"
    by (auto simp: word_le_nat_alt)
  from Cons assms(1) have i: "i \<ge> 0x20" "i \<le> 0x2F" and js: "\<forall>b \<in> set js. b \<ge> 0x20 \<and> b \<le> 0x2F"
    by auto
  from i have "\<not> i \<ge> 0x30" by (auto simp: word_le_nat_alt)
  with i f csi_interms [OF js] show ?thesis by (simp add: Cons ansi_emit_def)
qed

lemma token_stripped:
  "token_ok t \<Longrightarrow> ansi_state Ground (token_bytes t) = Ground \<and>
     ansi_text Ground (token_bytes t) = token_visible t"
proof (cases t)
  case (Text bs)
  then show "token_ok t \<Longrightarrow> ?thesis" using ansi_text_plain [of bs] by simp
next
  case (Csi ps "is" f)
  then show "token_ok t \<Longrightarrow> ?thesis"
    using csi_params [of ps] csi_tail [of "is" f] by (simp add: ansi_emit_def)
next
  case (OscBel bs)
  then show "token_ok t \<Longrightarrow> ?thesis" using osc_body [of bs] by (simp add: ansi_emit_def)
next
  case (OscSt bs)
  then show "token_ok t \<Longrightarrow> ?thesis" using osc_body [of bs] by (simp add: ansi_emit_def)
next
  case (EscShort f)
  assume "token_ok t"
  with EscShort have "\<not> f \<le> 0x2F" by (auto simp: word_le_nat_alt)
  with EscShort \<open>token_ok t\<close> show ?thesis by (simp add: ansi_emit_def)
next
  case (EscNf i f)
  assume "token_ok t"
  with EscNf have "i \<noteq> 0x5B" "i \<noteq> 0x5D" by (auto simp: word_le_nat_alt)
  with EscNf \<open>token_ok t\<close> show ?thesis by (simp add: ansi_emit_def)
qed

lemma document_stripped:
  "\<forall>t \<in> set ts. token_ok t \<Longrightarrow>
   ansi_state Ground (render ts) = Ground \<and> ansi_text Ground (render ts) = visible ts"
  by (induction ts) (auto simp: render_def visible_def token_stripped)

text \<open>
  C7. On every well-formed document, strip_ansi writes exactly the visible text (cut to the
  destination's size), whatever CSI, OSC and short escape sequences surround it.
\<close>

theorem strip_ansi_visible_text:
  assumes "\<forall>t \<in> set ts. token_ok t"
  shows "apre (snd (strip_ansi (render ts) dest)) (fst (strip_ansi (render ts) dest)) =
    take (alen dest) (visible ts)"
  using ansi_filter_refines [of Ground "render ts" dest] document_stripped [OF assms]
  by (auto simp: strip_ansi_def)

theorem strip_ansi_visible_text_witness:
  "apre (snd (strip_ansi (render [Csi [0x33, 0x31] [] 0x6D, Text [70, 65], OscBel [48, 59], Text [10]])
     (anew 16 0)))
   (fst (strip_ansi (render [Csi [0x33, 0x31] [] 0x6D, Text [70, 65], OscBel [48, 59], Text [10]])
     (anew 16 0)))
   = [70, 65, 10]"
  using strip_ansi_visible_text
    [of "[Csi [0x33, 0x31] [] 0x6D, Text [70, 65], OscBel [48, 59], Text [10]]" "anew 16 0"]
  by (simp add: visible_def printable_def)


text \<open>
  C31. Filtering is streaming: filtering a chunk and then another with the state that the first left
  writes the same bytes as filtering both at once, when the destinations have room for them.
\<close>

theorem ansi_filter_streaming:
  assumes "length a \<le> alen d1" "length b \<le> alen d2" "length a + length b \<le> alen d3"
  shows "apre (snd (snd (ansi_filter s (a @ b) d3))) (fst (ansi_filter s (a @ b) d3)) =
     apre (snd (snd (ansi_filter s a d1))) (fst (ansi_filter s a d1)) @
     apre (snd (snd (ansi_filter (fst (snd (ansi_filter s a d1))) b d2)))
       (fst (ansi_filter (fst (snd (ansi_filter s a d1))) b d2))"
  using ansi_filter_refines [of s "a @ b" d3] ansi_filter_refines [of s a d1]
    ansi_filter_refines [of "ansi_state s a" b d2]
    ansi_text_length [of s a] ansi_text_length [of "ansi_state s a" b] assms
  by auto

theorem ansi_filter_streaming_witness:
  "apre (snd (snd (ansi_filter Ground ([65, 0x1B] @ [0x5B, 0x6D, 66]) (anew 8 0))))
     (fst (ansi_filter Ground ([65, 0x1B] @ [0x5B, 0x6D, 66]) (anew 8 0))) = [65, 66]"
  using ansi_filter_streaming [of "[65, 0x1B]" "anew 8 0" "[0x5B, 0x6D, 66]" "anew 8 0" "anew 8 0" Ground]
  by (simp add: ansi_filter_def apre_def aput_def anew_def)

text \<open>
  Stripping is idempotent: text that was stripped from the ground state comes out unchanged.
\<close>

lemma strip_ansi_idempotent:
  assumes "length input \<le> alen d1" "length input \<le> alen d2"
  shows "apre (snd (strip_ansi (apre (snd (strip_ansi input d1)) (fst (strip_ansi input d1))) d2))
      (fst (strip_ansi (apre (snd (strip_ansi input d1)) (fst (strip_ansi input d1))) d2)) =
    apre (snd (strip_ansi input d1)) (fst (strip_ansi input d1))"
proof -
  let ?t = "ansi_text Ground input"
  have len: "length ?t \<le> length input" by (rule ansi_text_length)
  have "\<forall>b \<in> set ?t. b \<noteq> 0x1B"
    using ansi_text_printable [of Ground input] not_printable_esc by blast
  moreover have "filter printable ?t = ?t"
    using ansi_text_printable [of Ground input] by (simp add: filter_id_conv)
  ultimately have again: "ansi_text Ground ?t = ?t"
    using ansi_text_plain [of ?t] by simp
  have "apre (snd (strip_ansi input d1)) (fst (strip_ansi input d1)) = ?t"
    using ansi_filter_refines [of Ground input d1] assms(1) len by (auto simp: strip_ansi_def)
  then show ?thesis
    using ansi_filter_refines [of Ground ?t d2] assms(2) len by (auto simp: strip_ansi_def again)
qed


end
