(* ===== verification/Wire.thy ===== *)
theory Wire
  imports Prelude
begin

text \<open>
  The TDS-Wire protocol of include/axiom/wire.hpp: the opcodes, the packed frame header and the
  request and response headers of every operation. A packed struct is a record of words; memcpy in
  and out of it is the little-endian concatenation of its fields (\<open>xx_bytes\<close>, \<open>xx_of_bytes\<close>), the
  layout on the x86-64 and aarch64 targets. The locale \<open>wire_struct\<close> is the contract of such a
  pair, interpreted for each of the fifteen structs; the round trips are proved in it.
\<close>

section \<open>Little-endian words\<close>

definition put_le :: "nat \<Rightarrow> 'a::len word \<Rightarrow> byte list" where
  "put_le n w = map (\<lambda>i. ucast (drop_bit (8 * i) w)) [0..<n]"

primrec get_le :: "byte list \<Rightarrow> 'a::len word" where
  "get_le [] = 0"
| "get_le (b # bs) = ucast b OR push_bit 8 (get_le bs)"

lemma length_put_le [simp]: "length (put_le n w) = n"
  by (simp add: put_le_def)

lemma upt_bytes:
  "[0..<2] = [0, 1::nat]" "[0..<4] = [0, 1, 2, 3::nat]" "[0..<8] = [0, 1, 2, 3, 4, 5, 6, 7::nat]"
  by (simp_all add: upt_rec)

lemma bit_get_le:
  "bit (get_le bs :: 'a::len word) k \<longleftrightarrow>
     k < LENGTH('a) \<and> k < 8 * length bs \<and> bit (bs ! (k div 8)) (k mod 8)"
proof (induction bs arbitrary: k)
  case Nil
  then show ?case by simp
next
  case (Cons b bs)
  show ?case
  proof (cases "k < 8")
    case True
    then show ?thesis
      by (auto simp: bit_or_iff bit_push_bit_iff bit_ucast_iff)
  next
    case False
    then have "k = 8 + (k - 8)" by simp
    then have dm: "k div 8 = Suc ((k - 8) div 8)" "k mod 8 = (k - 8) mod 8"
      by (metis div_add_self1 plus_1_eq_Suc add.commute zero_neq_numeral, metis mod_add_self1)
    have "\<not> bit b k"
      using False bit_imp_le_length [of b k] by auto
    with False Cons.IH [of "k - 8"] show ?thesis
      by (auto simp: bit_or_iff bit_push_bit_iff bit_ucast_iff dm)
  qed
qed

lemma get_le_put_le [simp]:
  assumes "8 * n = LENGTH('a::len)"
  shows "get_le (put_le n (w :: 'a word)) = w"
proof (rule bit_word_eqI)
  fix k
  assume k: "k < LENGTH('a)"
  then have "k div 8 < n" using assms by auto
  then show "bit (get_le (put_le n w) :: 'a word) k = bit w k"
    using k assms by (simp add: bit_get_le put_le_def bit_ucast_iff bit_drop_bit_eq)
qed

lemma put_le_get_le [simp]:
  assumes "length bs = n" "8 * n = LENGTH('a::len)"
  shows "put_le n (get_le bs :: 'a word) = bs"
proof (rule nth_equalityI)
  show "length (put_le n (get_le bs :: 'a word)) = length bs"
    using assms by simp
  fix i
  assume "i < length (put_le n (get_le bs :: 'a word))"
  then have i: "i < n" by simp
  show "put_le n (get_le bs :: 'a word) ! i = bs ! i"
  proof (rule bit_word_eqI)
    fix k :: nat
    assume "k < LENGTH(8)"
    then have k: "k < 8" by simp
    with i have "8 * i + k < 8 * n" by linarith
    moreover from k have "(8 * i + k) div 8 = i" "(8 * i + k) mod 8 = k" by auto
    ultimately show "bit (put_le n (get_le bs :: 'a word) ! i) k = bit (bs ! i) k"
      using i k assms
      by (simp add: put_le_def bit_ucast_iff bit_drop_bit_eq bit_get_le)
  qed
qed

section \<open>Packed structs\<close>

definition decode_struct :: "nat \<Rightarrow> (byte list \<Rightarrow> 'h) \<Rightarrow> byte list \<Rightarrow> 'h result" where
  "decode_struct sz of_bytes buffer =
     (if length buffer < sz then Inl BufferUnderflow else Inr (of_bytes (take sz buffer)))"

definition encode_struct ::
  "nat \<Rightarrow> ('h \<Rightarrow> byte list) \<Rightarrow> 'h \<Rightarrow> byte arr \<Rightarrow> nat result \<times> byte arr" where
  "encode_struct sz to_bytes h buf =
     (if alen buf < sz then (Inl BufferOverflow, buf) else (Inr sz, acopy buf 0 (to_bytes h)))"

locale wire_struct =
  fixes to_bytes :: "'h \<Rightarrow> byte list"
    and of_bytes :: "byte list \<Rightarrow> 'h"
    and sz :: nat
  assumes length_to_bytes: "length (to_bytes h) = sz"
    and of_to_bytes: "of_bytes (to_bytes h) = h"
    and to_of_bytes: "length bs = sz \<Longrightarrow> to_bytes (of_bytes bs) = bs"
begin

lemma to_bytes_inj: "to_bytes h = to_bytes h' \<Longrightarrow> h = h'"
  by (metis of_to_bytes)

lemma decode_of_bytes: "decode_struct sz of_bytes (to_bytes h @ rest) = Inr h"
  by (simp add: decode_struct_def length_to_bytes of_to_bytes)

lemma decode_error: "decode_struct sz of_bytes buf = Inl e \<longleftrightarrow> e = BufferUnderflow \<and> length buf < sz"
  by (auto simp: decode_struct_def)

lemma decode_prefix: "decode_struct sz of_bytes buf = Inr h \<Longrightarrow> take sz buf = to_bytes h"
  by (auto simp: decode_struct_def to_of_bytes split: if_splits)

lemma encode_room:
  "sz \<le> alen buf \<Longrightarrow> fst (encode_struct sz to_bytes h buf) = Inr sz \<and>
     apre (snd (encode_struct sz to_bytes h buf)) sz = to_bytes h \<and>
     alen (snd (encode_struct sz to_bytes h buf)) = alen buf"
  using apre_acopy_0 [of buf "to_bytes h"] by (simp add: encode_struct_def length_to_bytes)

lemma encode_no_room:
  "alen buf < sz \<Longrightarrow> encode_struct sz to_bytes h buf = (Inl BufferOverflow, buf)"
  by (simp add: encode_struct_def)

lemma encode_decode:
  "sz \<le> alen buf \<Longrightarrow>
   decode_struct sz of_bytes (apre (snd (encode_struct sz to_bytes h buf)) sz @ rest) = Inr h"
  using encode_room [of buf h] by (simp add: decode_of_bytes)

end

lemma take_drop_join [simp]: "n + k = m \<Longrightarrow> take k (drop n bs) @ drop m bs = drop n bs"
  by (metis append_take_drop_id drop_drop add.commute)

section \<open>Opcodes\<close>

datatype opcode =
  Ping | Pong | Exec | ExecOutput | AstSymbols | AstSlice | AstPatch | AstSymbolsResponse
| AstSliceResponse | AstPatchResponse | CdpAction | CdpActionResponse | ReadFile
| ReadFileResponse | WriteFile | WriteFileResponse | Shutdown

primrec opcode_val :: "opcode \<Rightarrow> u16" where
  "opcode_val Ping = 0x0001"
| "opcode_val Pong = 0x0002"
| "opcode_val Exec = 0x0010"
| "opcode_val ExecOutput = 0x0011"
| "opcode_val AstSymbols = 0x0020"
| "opcode_val AstSlice = 0x0021"
| "opcode_val AstPatch = 0x0022"
| "opcode_val AstSymbolsResponse = 0x0023"
| "opcode_val AstSliceResponse = 0x0024"
| "opcode_val AstPatchResponse = 0x0025"
| "opcode_val CdpAction = 0x0030"
| "opcode_val CdpActionResponse = 0x0031"
| "opcode_val ReadFile = 0x0040"
| "opcode_val ReadFileResponse = 0x0041"
| "opcode_val WriteFile = 0x0042"
| "opcode_val WriteFileResponse = 0x0043"
| "opcode_val Shutdown = 0x00FF"

text \<open>
  static_cast to the enum followed by a switch: None is a value without an enumerator, which takes
  the default branch.
\<close>

definition all_opcodes :: "opcode list" where
  "all_opcodes = [Ping, Pong, Exec, ExecOutput, AstSymbols, AstSlice, AstPatch,
     AstSymbolsResponse, AstSliceResponse, AstPatchResponse, CdpAction, CdpActionResponse,
     ReadFile, ReadFileResponse, WriteFile, WriteFileResponse, Shutdown]"

definition opcode_of :: "u16 \<Rightarrow> opcode option" where
  "opcode_of v = find (\<lambda>op. opcode_val op = v) all_opcodes"

lemma opcode_of_val [simp]: "opcode_of (opcode_val op) = Some op"
  by (cases op) (simp_all add: opcode_of_def all_opcodes_def)

lemma opcode_of_Some: "opcode_of v = Some op \<Longrightarrow> opcode_val op = v"
  by (auto simp: opcode_of_def find_Some_iff)

text \<open>The browser actions of CdpActionType.\<close>

datatype cdp_action_type = Navigate | GetTree | Click | Type | Scroll

primrec cdp_action_val :: "cdp_action_type \<Rightarrow> byte" where
  "cdp_action_val Navigate = 1"
| "cdp_action_val GetTree = 2"
| "cdp_action_val Click = 3"
| "cdp_action_val Type = 4"
| "cdp_action_val Scroll = 5"

definition cdp_action_of :: "byte \<Rightarrow> cdp_action_type option" where
  "cdp_action_of v = find (\<lambda>a. cdp_action_val a = v) [Navigate, GetTree, Click, Type, Scroll]"

lemma cdp_action_of_val [simp]: "cdp_action_of (cdp_action_val a) = Some a"
  by (cases a) (simp_all add: cdp_action_of_def)

lemma cdp_action_of_Some: "cdp_action_of v = Some a \<Longrightarrow> cdp_action_val a = v"
  by (auto simp: cdp_action_of_def split: if_splits)

section \<open>Headers\<close>

definition WIRE_MAGIC :: u16 where
  "WIRE_MAGIC = 0xAA55"

definition EXEC_FLAG_STRIP_ANSI :: u32 where
  "EXEC_FLAG_STRIP_ANSI = push_bit 0 1"

definition EXEC_FLAG_CAPTURE_DIFF :: u32 where
  "EXEC_FLAG_CAPTURE_DIFF = push_bit 1 1"

definition EXEC_RESP_TRUNCATED :: u32 where
  "EXEC_RESP_TRUNCATED = push_bit 0 1"

definition EXEC_RESP_TIMED_OUT :: u32 where
  "EXEC_RESP_TIMED_OUT = push_bit 1 1"

subsection \<open>FrameHeader\<close>

record frame_header =
  fh_magic :: u16
  fh_opcode :: u16
  fh_request_id :: u32
  fh_payload_len :: u32

definition HEADER_SIZE :: nat where
  "HEADER_SIZE = 12"

definition frame_header_init :: frame_header where
  "frame_header_init = \<lparr>fh_magic = WIRE_MAGIC, fh_opcode = 0, fh_request_id = 0, fh_payload_len = 0\<rparr>"

definition fh_bytes :: "frame_header \<Rightarrow> byte list" where
  "fh_bytes h =
     put_le 2 (fh_magic h) @ put_le 2 (fh_opcode h) @ put_le 4 (fh_request_id h) @
     put_le 4 (fh_payload_len h)"

definition fh_of_bytes :: "byte list \<Rightarrow> frame_header" where
  "fh_of_bytes bs =
     \<lparr>fh_magic = get_le (take 2 bs), fh_opcode = get_le (take 2 (drop 2 bs)),
     fh_request_id = get_le (take 4 (drop 4 bs)), fh_payload_len = get_le (take 4 (drop 8 bs))\<rparr>"

definition decode_header :: "byte list \<Rightarrow> frame_header result" where
  "decode_header buffer =
     (if length buffer < HEADER_SIZE then Inl BufferUnderflow
      else let header = fh_of_bytes (take HEADER_SIZE buffer)
           in if fh_magic header \<noteq> WIRE_MAGIC then Inl ProtocolError else Inr header)"

definition encode_header ::
  "frame_header \<Rightarrow> byte arr \<Rightarrow> nat result \<times> byte arr" where
  "encode_header = encode_struct HEADER_SIZE fh_bytes"

interpretation fh: wire_struct fh_bytes fh_of_bytes HEADER_SIZE
  by unfold_locales
    (simp_all add: fh_bytes_def fh_of_bytes_def HEADER_SIZE_def)

subsection \<open>ExecRequestHeader\<close>

record exec_request_header =
  xq_flags :: u32
  xq_timeout_ms :: u32
  xq_cmd_len :: u16
  xq_cwd_len :: u16

definition EXEC_REQ_HEADER_SIZE :: nat where
  "EXEC_REQ_HEADER_SIZE = 12"

definition exec_request_header_init :: exec_request_header where
  "exec_request_header_init = \<lparr>xq_flags = 0, xq_timeout_ms = 5000, xq_cmd_len = 0, xq_cwd_len = 0\<rparr>"

definition xq_bytes :: "exec_request_header \<Rightarrow> byte list" where
  "xq_bytes h =
     put_le 4 (xq_flags h) @ put_le 4 (xq_timeout_ms h) @ put_le 2 (xq_cmd_len h) @
     put_le 2 (xq_cwd_len h)"

definition xq_of_bytes :: "byte list \<Rightarrow> exec_request_header" where
  "xq_of_bytes bs =
     \<lparr>xq_flags = get_le (take 4 bs), xq_timeout_ms = get_le (take 4 (drop 4 bs)),
     xq_cmd_len = get_le (take 2 (drop 8 bs)), xq_cwd_len = get_le (take 2 (drop 10 bs))\<rparr>"

definition decode_exec_request :: "byte list \<Rightarrow> exec_request_header result" where
  "decode_exec_request = decode_struct EXEC_REQ_HEADER_SIZE xq_of_bytes"

definition encode_exec_request ::
  "exec_request_header \<Rightarrow> byte arr \<Rightarrow> nat result \<times> byte arr" where
  "encode_exec_request = encode_struct EXEC_REQ_HEADER_SIZE xq_bytes"

interpretation xq: wire_struct xq_bytes xq_of_bytes EXEC_REQ_HEADER_SIZE
  by unfold_locales
    (simp_all add: xq_bytes_def xq_of_bytes_def EXEC_REQ_HEADER_SIZE_def)

subsection \<open>ExecResponseHeader\<close>

record exec_response_header =
  xr_exit_code :: i32
  xr_flags :: u32
  xr_cpu_cycles :: u64
  xr_output_len :: u32
  xr_diff_len :: u32

definition EXEC_RESP_HEADER_SIZE :: nat where
  "EXEC_RESP_HEADER_SIZE = 24"

definition exec_response_header_init :: exec_response_header where
  "exec_response_header_init = \<lparr>xr_exit_code = 0, xr_flags = 0, xr_cpu_cycles = 0, xr_output_len = 0, xr_diff_len = 0\<rparr>"

definition xr_bytes :: "exec_response_header \<Rightarrow> byte list" where
  "xr_bytes h =
     put_le 4 (xr_exit_code h) @ put_le 4 (xr_flags h) @ put_le 8 (xr_cpu_cycles h) @
     put_le 4 (xr_output_len h) @ put_le 4 (xr_diff_len h)"

definition xr_of_bytes :: "byte list \<Rightarrow> exec_response_header" where
  "xr_of_bytes bs =
     \<lparr>xr_exit_code = get_le (take 4 bs), xr_flags = get_le (take 4 (drop 4 bs)),
     xr_cpu_cycles = get_le (take 8 (drop 8 bs)), xr_output_len = get_le (take 4 (drop 16 bs)),
     xr_diff_len = get_le (take 4 (drop 20 bs))\<rparr>"

definition decode_exec_response :: "byte list \<Rightarrow> exec_response_header result" where
  "decode_exec_response = decode_struct EXEC_RESP_HEADER_SIZE xr_of_bytes"

definition encode_exec_response ::
  "exec_response_header \<Rightarrow> byte arr \<Rightarrow> nat result \<times> byte arr" where
  "encode_exec_response = encode_struct EXEC_RESP_HEADER_SIZE xr_bytes"

interpretation xr: wire_struct xr_bytes xr_of_bytes EXEC_RESP_HEADER_SIZE
  by unfold_locales
    (simp_all add: xr_bytes_def xr_of_bytes_def EXEC_RESP_HEADER_SIZE_def)

subsection \<open>AstSymbolsRequestHeader\<close>

record ast_symbols_request_header =
  yq_path_len :: u32

definition AST_SYMBOLS_REQ_HEADER_SIZE :: nat where
  "AST_SYMBOLS_REQ_HEADER_SIZE = 4"

definition ast_symbols_request_header_init :: ast_symbols_request_header where
  "ast_symbols_request_header_init = \<lparr>yq_path_len = 0\<rparr>"

definition yq_bytes :: "ast_symbols_request_header \<Rightarrow> byte list" where
  "yq_bytes h =
     put_le 4 (yq_path_len h)"

definition yq_of_bytes :: "byte list \<Rightarrow> ast_symbols_request_header" where
  "yq_of_bytes bs =
     \<lparr>yq_path_len = get_le (take 4 bs)\<rparr>"

definition decode_ast_symbols_request :: "byte list \<Rightarrow> ast_symbols_request_header result" where
  "decode_ast_symbols_request = decode_struct AST_SYMBOLS_REQ_HEADER_SIZE yq_of_bytes"

definition encode_ast_symbols_request ::
  "ast_symbols_request_header \<Rightarrow> byte arr \<Rightarrow> nat result \<times> byte arr" where
  "encode_ast_symbols_request = encode_struct AST_SYMBOLS_REQ_HEADER_SIZE yq_bytes"

interpretation yq: wire_struct yq_bytes yq_of_bytes AST_SYMBOLS_REQ_HEADER_SIZE
  by unfold_locales
    (simp_all add: yq_bytes_def yq_of_bytes_def AST_SYMBOLS_REQ_HEADER_SIZE_def)

subsection \<open>AstSymbolsResponseHeader\<close>

record ast_symbols_response_header =
  yr_status :: i32
  yr_symbol_count :: u32
  yr_payload_len :: u32

definition AST_SYMBOLS_RESP_HEADER_SIZE :: nat where
  "AST_SYMBOLS_RESP_HEADER_SIZE = 12"

definition ast_symbols_response_header_init :: ast_symbols_response_header where
  "ast_symbols_response_header_init = \<lparr>yr_status = 0, yr_symbol_count = 0, yr_payload_len = 0\<rparr>"

definition yr_bytes :: "ast_symbols_response_header \<Rightarrow> byte list" where
  "yr_bytes h =
     put_le 4 (yr_status h) @ put_le 4 (yr_symbol_count h) @ put_le 4 (yr_payload_len h)"

definition yr_of_bytes :: "byte list \<Rightarrow> ast_symbols_response_header" where
  "yr_of_bytes bs =
     \<lparr>yr_status = get_le (take 4 bs), yr_symbol_count = get_le (take 4 (drop 4 bs)),
     yr_payload_len = get_le (take 4 (drop 8 bs))\<rparr>"

definition decode_ast_symbols_response :: "byte list \<Rightarrow> ast_symbols_response_header result" where
  "decode_ast_symbols_response = decode_struct AST_SYMBOLS_RESP_HEADER_SIZE yr_of_bytes"

definition encode_ast_symbols_response ::
  "ast_symbols_response_header \<Rightarrow> byte arr \<Rightarrow> nat result \<times> byte arr" where
  "encode_ast_symbols_response = encode_struct AST_SYMBOLS_RESP_HEADER_SIZE yr_bytes"

interpretation yr: wire_struct yr_bytes yr_of_bytes AST_SYMBOLS_RESP_HEADER_SIZE
  by unfold_locales
    (simp_all add: yr_bytes_def yr_of_bytes_def AST_SYMBOLS_RESP_HEADER_SIZE_def)

subsection \<open>AstSliceRequestHeader\<close>

record ast_slice_request_header =
  lq_path_len :: u16
  lq_symbol_len :: u16

definition AST_SLICE_REQ_HEADER_SIZE :: nat where
  "AST_SLICE_REQ_HEADER_SIZE = 4"

definition ast_slice_request_header_init :: ast_slice_request_header where
  "ast_slice_request_header_init = \<lparr>lq_path_len = 0, lq_symbol_len = 0\<rparr>"

definition lq_bytes :: "ast_slice_request_header \<Rightarrow> byte list" where
  "lq_bytes h =
     put_le 2 (lq_path_len h) @ put_le 2 (lq_symbol_len h)"

definition lq_of_bytes :: "byte list \<Rightarrow> ast_slice_request_header" where
  "lq_of_bytes bs =
     \<lparr>lq_path_len = get_le (take 2 bs), lq_symbol_len = get_le (take 2 (drop 2 bs))\<rparr>"

definition decode_ast_slice_request :: "byte list \<Rightarrow> ast_slice_request_header result" where
  "decode_ast_slice_request = decode_struct AST_SLICE_REQ_HEADER_SIZE lq_of_bytes"

definition encode_ast_slice_request ::
  "ast_slice_request_header \<Rightarrow> byte arr \<Rightarrow> nat result \<times> byte arr" where
  "encode_ast_slice_request = encode_struct AST_SLICE_REQ_HEADER_SIZE lq_bytes"

interpretation lq: wire_struct lq_bytes lq_of_bytes AST_SLICE_REQ_HEADER_SIZE
  by unfold_locales
    (simp_all add: lq_bytes_def lq_of_bytes_def AST_SLICE_REQ_HEADER_SIZE_def)

subsection \<open>AstSliceResponseHeader\<close>

record ast_slice_response_header =
  lr_status :: i32
  lr_start_line :: u32
  lr_end_line :: u32
  lr_content_len :: u32

definition AST_SLICE_RESP_HEADER_SIZE :: nat where
  "AST_SLICE_RESP_HEADER_SIZE = 16"

definition ast_slice_response_header_init :: ast_slice_response_header where
  "ast_slice_response_header_init = \<lparr>lr_status = 0, lr_start_line = 0, lr_end_line = 0, lr_content_len = 0\<rparr>"

definition lr_bytes :: "ast_slice_response_header \<Rightarrow> byte list" where
  "lr_bytes h =
     put_le 4 (lr_status h) @ put_le 4 (lr_start_line h) @ put_le 4 (lr_end_line h) @
     put_le 4 (lr_content_len h)"

definition lr_of_bytes :: "byte list \<Rightarrow> ast_slice_response_header" where
  "lr_of_bytes bs =
     \<lparr>lr_status = get_le (take 4 bs), lr_start_line = get_le (take 4 (drop 4 bs)),
     lr_end_line = get_le (take 4 (drop 8 bs)), lr_content_len = get_le (take 4 (drop 12 bs))\<rparr>"

definition decode_ast_slice_response :: "byte list \<Rightarrow> ast_slice_response_header result" where
  "decode_ast_slice_response = decode_struct AST_SLICE_RESP_HEADER_SIZE lr_of_bytes"

definition encode_ast_slice_response ::
  "ast_slice_response_header \<Rightarrow> byte arr \<Rightarrow> nat result \<times> byte arr" where
  "encode_ast_slice_response = encode_struct AST_SLICE_RESP_HEADER_SIZE lr_bytes"

interpretation lr: wire_struct lr_bytes lr_of_bytes AST_SLICE_RESP_HEADER_SIZE
  by unfold_locales
    (simp_all add: lr_bytes_def lr_of_bytes_def AST_SLICE_RESP_HEADER_SIZE_def)

subsection \<open>AstPatchRequestHeader\<close>

record ast_patch_request_header =
  pq_path_len :: u16
  pq_symbol_len :: u16
  pq_replacement_len :: u32

definition AST_PATCH_REQ_HEADER_SIZE :: nat where
  "AST_PATCH_REQ_HEADER_SIZE = 8"

definition ast_patch_request_header_init :: ast_patch_request_header where
  "ast_patch_request_header_init = \<lparr>pq_path_len = 0, pq_symbol_len = 0, pq_replacement_len = 0\<rparr>"

definition pq_bytes :: "ast_patch_request_header \<Rightarrow> byte list" where
  "pq_bytes h =
     put_le 2 (pq_path_len h) @ put_le 2 (pq_symbol_len h) @ put_le 4 (pq_replacement_len h)"

definition pq_of_bytes :: "byte list \<Rightarrow> ast_patch_request_header" where
  "pq_of_bytes bs =
     \<lparr>pq_path_len = get_le (take 2 bs), pq_symbol_len = get_le (take 2 (drop 2 bs)),
     pq_replacement_len = get_le (take 4 (drop 4 bs))\<rparr>"

definition decode_ast_patch_request :: "byte list \<Rightarrow> ast_patch_request_header result" where
  "decode_ast_patch_request = decode_struct AST_PATCH_REQ_HEADER_SIZE pq_of_bytes"

definition encode_ast_patch_request ::
  "ast_patch_request_header \<Rightarrow> byte arr \<Rightarrow> nat result \<times> byte arr" where
  "encode_ast_patch_request = encode_struct AST_PATCH_REQ_HEADER_SIZE pq_bytes"

interpretation pq: wire_struct pq_bytes pq_of_bytes AST_PATCH_REQ_HEADER_SIZE
  by unfold_locales
    (simp_all add: pq_bytes_def pq_of_bytes_def AST_PATCH_REQ_HEADER_SIZE_def)

subsection \<open>AstPatchResponseHeader\<close>

record ast_patch_response_header =
  pr_status :: i32
  pr_old_start_line :: u32
  pr_old_end_line :: u32
  pr_new_end_line :: u32

definition AST_PATCH_RESP_HEADER_SIZE :: nat where
  "AST_PATCH_RESP_HEADER_SIZE = 16"

definition ast_patch_response_header_init :: ast_patch_response_header where
  "ast_patch_response_header_init = \<lparr>pr_status = 0, pr_old_start_line = 0, pr_old_end_line = 0, pr_new_end_line = 0\<rparr>"

definition pr_bytes :: "ast_patch_response_header \<Rightarrow> byte list" where
  "pr_bytes h =
     put_le 4 (pr_status h) @ put_le 4 (pr_old_start_line h) @ put_le 4 (pr_old_end_line h) @
     put_le 4 (pr_new_end_line h)"

definition pr_of_bytes :: "byte list \<Rightarrow> ast_patch_response_header" where
  "pr_of_bytes bs =
     \<lparr>pr_status = get_le (take 4 bs), pr_old_start_line = get_le (take 4 (drop 4 bs)),
     pr_old_end_line = get_le (take 4 (drop 8 bs)),
     pr_new_end_line = get_le (take 4 (drop 12 bs))\<rparr>"

definition decode_ast_patch_response :: "byte list \<Rightarrow> ast_patch_response_header result" where
  "decode_ast_patch_response = decode_struct AST_PATCH_RESP_HEADER_SIZE pr_of_bytes"

definition encode_ast_patch_response ::
  "ast_patch_response_header \<Rightarrow> byte arr \<Rightarrow> nat result \<times> byte arr" where
  "encode_ast_patch_response = encode_struct AST_PATCH_RESP_HEADER_SIZE pr_bytes"

interpretation pr: wire_struct pr_bytes pr_of_bytes AST_PATCH_RESP_HEADER_SIZE
  by unfold_locales
    (simp_all add: pr_bytes_def pr_of_bytes_def AST_PATCH_RESP_HEADER_SIZE_def)

subsection \<open>CdpActionRequestHeader\<close>

record cdp_action_request_header =
  cq_action :: byte
  cq_flags :: byte
  cq_target_id :: u16
  cq_scroll_delta :: i32
  cq_payload1_len :: u16
  cq_payload2_len :: u16

definition CDP_REQ_HEADER_SIZE :: nat where
  "CDP_REQ_HEADER_SIZE = 12"

definition cdp_action_request_header_init :: cdp_action_request_header where
  "cdp_action_request_header_init = \<lparr>cq_action = 0, cq_flags = 0, cq_target_id = 0, cq_scroll_delta = 0, cq_payload1_len = 0, cq_payload2_len = 0\<rparr>"

definition cq_bytes :: "cdp_action_request_header \<Rightarrow> byte list" where
  "cq_bytes h =
     put_le 1 (cq_action h) @ put_le 1 (cq_flags h) @ put_le 2 (cq_target_id h) @
     put_le 4 (cq_scroll_delta h) @ put_le 2 (cq_payload1_len h) @ put_le 2 (cq_payload2_len h)"

definition cq_of_bytes :: "byte list \<Rightarrow> cdp_action_request_header" where
  "cq_of_bytes bs =
     \<lparr>cq_action = get_le (take 1 bs), cq_flags = get_le (take 1 (drop 1 bs)),
     cq_target_id = get_le (take 2 (drop 2 bs)), cq_scroll_delta = get_le (take 4 (drop 4 bs)),
     cq_payload1_len = get_le (take 2 (drop 8 bs)),
     cq_payload2_len = get_le (take 2 (drop 10 bs))\<rparr>"

definition decode_cdp_request :: "byte list \<Rightarrow> cdp_action_request_header result" where
  "decode_cdp_request = decode_struct CDP_REQ_HEADER_SIZE cq_of_bytes"

definition encode_cdp_request ::
  "cdp_action_request_header \<Rightarrow> byte arr \<Rightarrow> nat result \<times> byte arr" where
  "encode_cdp_request = encode_struct CDP_REQ_HEADER_SIZE cq_bytes"

interpretation cq: wire_struct cq_bytes cq_of_bytes CDP_REQ_HEADER_SIZE
  by unfold_locales
    (simp_all add: cq_bytes_def cq_of_bytes_def CDP_REQ_HEADER_SIZE_def)

subsection \<open>CdpActionResponseHeader\<close>

record cdp_action_response_header =
  cr_status :: i32
  cr_node_count :: u32
  cr_payload_len :: u32

definition CDP_RESP_HEADER_SIZE :: nat where
  "CDP_RESP_HEADER_SIZE = 12"

definition cdp_action_response_header_init :: cdp_action_response_header where
  "cdp_action_response_header_init = \<lparr>cr_status = 0, cr_node_count = 0, cr_payload_len = 0\<rparr>"

definition cr_bytes :: "cdp_action_response_header \<Rightarrow> byte list" where
  "cr_bytes h =
     put_le 4 (cr_status h) @ put_le 4 (cr_node_count h) @ put_le 4 (cr_payload_len h)"

definition cr_of_bytes :: "byte list \<Rightarrow> cdp_action_response_header" where
  "cr_of_bytes bs =
     \<lparr>cr_status = get_le (take 4 bs), cr_node_count = get_le (take 4 (drop 4 bs)),
     cr_payload_len = get_le (take 4 (drop 8 bs))\<rparr>"

definition decode_cdp_response :: "byte list \<Rightarrow> cdp_action_response_header result" where
  "decode_cdp_response = decode_struct CDP_RESP_HEADER_SIZE cr_of_bytes"

definition encode_cdp_response ::
  "cdp_action_response_header \<Rightarrow> byte arr \<Rightarrow> nat result \<times> byte arr" where
  "encode_cdp_response = encode_struct CDP_RESP_HEADER_SIZE cr_bytes"

interpretation cr: wire_struct cr_bytes cr_of_bytes CDP_RESP_HEADER_SIZE
  by unfold_locales
    (simp_all add: cr_bytes_def cr_of_bytes_def CDP_RESP_HEADER_SIZE_def)

subsection \<open>ReadFileRequestHeader\<close>

record read_file_request_header =
  rq_offset :: u32
  rq_max_bytes :: u32
  rq_path_len :: u16
  rq_reserved :: u16

definition READ_FILE_REQ_HEADER_SIZE :: nat where
  "READ_FILE_REQ_HEADER_SIZE = 12"

definition read_file_request_header_init :: read_file_request_header where
  "read_file_request_header_init = \<lparr>rq_offset = 0, rq_max_bytes = 0, rq_path_len = 0, rq_reserved = 0\<rparr>"

definition rq_bytes :: "read_file_request_header \<Rightarrow> byte list" where
  "rq_bytes h =
     put_le 4 (rq_offset h) @ put_le 4 (rq_max_bytes h) @ put_le 2 (rq_path_len h) @
     put_le 2 (rq_reserved h)"

definition rq_of_bytes :: "byte list \<Rightarrow> read_file_request_header" where
  "rq_of_bytes bs =
     \<lparr>rq_offset = get_le (take 4 bs), rq_max_bytes = get_le (take 4 (drop 4 bs)),
     rq_path_len = get_le (take 2 (drop 8 bs)), rq_reserved = get_le (take 2 (drop 10 bs))\<rparr>"

definition decode_read_file_request :: "byte list \<Rightarrow> read_file_request_header result" where
  "decode_read_file_request = decode_struct READ_FILE_REQ_HEADER_SIZE rq_of_bytes"

interpretation rq: wire_struct rq_bytes rq_of_bytes READ_FILE_REQ_HEADER_SIZE
  by unfold_locales
    (simp_all add: rq_bytes_def rq_of_bytes_def READ_FILE_REQ_HEADER_SIZE_def)

subsection \<open>ReadFileResponseHeader\<close>

record read_file_response_header =
  rr_status :: i32
  rr_total_size :: u32
  rr_content_len :: u32

definition READ_FILE_RESP_HEADER_SIZE :: nat where
  "READ_FILE_RESP_HEADER_SIZE = 12"

definition read_file_response_header_init :: read_file_response_header where
  "read_file_response_header_init = \<lparr>rr_status = 0, rr_total_size = 0, rr_content_len = 0\<rparr>"

definition rr_bytes :: "read_file_response_header \<Rightarrow> byte list" where
  "rr_bytes h =
     put_le 4 (rr_status h) @ put_le 4 (rr_total_size h) @ put_le 4 (rr_content_len h)"

definition rr_of_bytes :: "byte list \<Rightarrow> read_file_response_header" where
  "rr_of_bytes bs =
     \<lparr>rr_status = get_le (take 4 bs), rr_total_size = get_le (take 4 (drop 4 bs)),
     rr_content_len = get_le (take 4 (drop 8 bs))\<rparr>"

definition encode_read_file_response ::
  "read_file_response_header \<Rightarrow> byte arr \<Rightarrow> nat result \<times> byte arr" where
  "encode_read_file_response = encode_struct READ_FILE_RESP_HEADER_SIZE rr_bytes"

interpretation rr: wire_struct rr_bytes rr_of_bytes READ_FILE_RESP_HEADER_SIZE
  by unfold_locales
    (simp_all add: rr_bytes_def rr_of_bytes_def READ_FILE_RESP_HEADER_SIZE_def)

subsection \<open>WriteFileRequestHeader\<close>

record write_file_request_header =
  wq_flags :: u32
  wq_mode :: u32
  wq_path_len :: u16
  wq_reserved :: u16
  wq_content_len :: u32

definition WRITE_FILE_REQ_HEADER_SIZE :: nat where
  "WRITE_FILE_REQ_HEADER_SIZE = 16"

definition write_file_request_header_init :: write_file_request_header where
  "write_file_request_header_init = \<lparr>wq_flags = 0, wq_mode = 420, wq_path_len = 0, wq_reserved = 0, wq_content_len = 0\<rparr>"

definition wq_bytes :: "write_file_request_header \<Rightarrow> byte list" where
  "wq_bytes h =
     put_le 4 (wq_flags h) @ put_le 4 (wq_mode h) @ put_le 2 (wq_path_len h) @
     put_le 2 (wq_reserved h) @ put_le 4 (wq_content_len h)"

definition wq_of_bytes :: "byte list \<Rightarrow> write_file_request_header" where
  "wq_of_bytes bs =
     \<lparr>wq_flags = get_le (take 4 bs), wq_mode = get_le (take 4 (drop 4 bs)),
     wq_path_len = get_le (take 2 (drop 8 bs)), wq_reserved = get_le (take 2 (drop 10 bs)),
     wq_content_len = get_le (take 4 (drop 12 bs))\<rparr>"

definition decode_write_file_request :: "byte list \<Rightarrow> write_file_request_header result" where
  "decode_write_file_request = decode_struct WRITE_FILE_REQ_HEADER_SIZE wq_of_bytes"

interpretation wq: wire_struct wq_bytes wq_of_bytes WRITE_FILE_REQ_HEADER_SIZE
  by unfold_locales
    (simp_all add: wq_bytes_def wq_of_bytes_def WRITE_FILE_REQ_HEADER_SIZE_def)

subsection \<open>WriteFileResponseHeader\<close>

record write_file_response_header =
  wr_status :: i32
  wr_bytes_written :: u32

definition WRITE_FILE_RESP_HEADER_SIZE :: nat where
  "WRITE_FILE_RESP_HEADER_SIZE = 8"

definition write_file_response_header_init :: write_file_response_header where
  "write_file_response_header_init = \<lparr>wr_status = 0, wr_bytes_written = 0\<rparr>"

definition wr_bytes :: "write_file_response_header \<Rightarrow> byte list" where
  "wr_bytes h =
     put_le 4 (wr_status h) @ put_le 4 (wr_bytes_written h)"

definition wr_of_bytes :: "byte list \<Rightarrow> write_file_response_header" where
  "wr_of_bytes bs =
     \<lparr>wr_status = get_le (take 4 bs), wr_bytes_written = get_le (take 4 (drop 4 bs))\<rparr>"

definition encode_write_file_response ::
  "write_file_response_header \<Rightarrow> byte arr \<Rightarrow> nat result \<times> byte arr" where
  "encode_write_file_response = encode_struct WRITE_FILE_RESP_HEADER_SIZE wr_bytes"

interpretation wr: wire_struct wr_bytes wr_of_bytes WRITE_FILE_RESP_HEADER_SIZE
  by unfold_locales
    (simp_all add: wr_bytes_def wr_of_bytes_def WRITE_FILE_RESP_HEADER_SIZE_def)

lemmas wire_decode_defs =
  decode_exec_request_def decode_exec_response_def decode_ast_symbols_request_def
  decode_ast_symbols_response_def decode_ast_slice_request_def decode_ast_slice_response_def
  decode_ast_patch_request_def decode_ast_patch_response_def decode_cdp_request_def
  decode_cdp_response_def decode_read_file_request_def decode_write_file_request_def

lemmas wire_encode_defs =
  encode_header_def encode_exec_request_def encode_exec_response_def
  encode_ast_symbols_request_def encode_ast_symbols_response_def encode_ast_slice_request_def
  encode_ast_slice_response_def encode_ast_patch_request_def encode_ast_patch_response_def
  encode_cdp_request_def encode_cdp_response_def encode_read_file_response_def
  encode_write_file_response_def

lemmas wire_decode_laws =
  xq.decode_of_bytes xr.decode_of_bytes yq.decode_of_bytes yr.decode_of_bytes lq.decode_of_bytes
  lr.decode_of_bytes pq.decode_of_bytes pr.decode_of_bytes cq.decode_of_bytes cr.decode_of_bytes
  rq.decode_of_bytes wq.decode_of_bytes

lemmas wire_lengths =
  xq.length_to_bytes xr.length_to_bytes yq.length_to_bytes yr.length_to_bytes lq.length_to_bytes
  lr.length_to_bytes pq.length_to_bytes pr.length_to_bytes cq.length_to_bytes cr.length_to_bytes
  rq.length_to_bytes rr.length_to_bytes wq.length_to_bytes wr.length_to_bytes

lemmas wire_sizes =
  EXEC_REQ_HEADER_SIZE_def EXEC_RESP_HEADER_SIZE_def AST_SYMBOLS_REQ_HEADER_SIZE_def
  AST_SYMBOLS_RESP_HEADER_SIZE_def AST_SLICE_REQ_HEADER_SIZE_def AST_SLICE_RESP_HEADER_SIZE_def
  AST_PATCH_REQ_HEADER_SIZE_def AST_PATCH_RESP_HEADER_SIZE_def CDP_REQ_HEADER_SIZE_def
  CDP_RESP_HEADER_SIZE_def READ_FILE_REQ_HEADER_SIZE_def READ_FILE_RESP_HEADER_SIZE_def
  WRITE_FILE_REQ_HEADER_SIZE_def WRITE_FILE_RESP_HEADER_SIZE_def

section \<open>Frames\<close>

lemma fh_decode_header:
  "decode_header buf = (case decode_struct HEADER_SIZE fh_of_bytes buf of
     Inl e \<Rightarrow> Inl e
   | Inr h \<Rightarrow> if fh_magic h \<noteq> WIRE_MAGIC then Inl ProtocolError else Inr h)"
  by (simp add: decode_header_def decode_struct_def Let_def)

lemma decode_header_bytes:
  "fh_magic h = WIRE_MAGIC \<Longrightarrow> decode_header (fh_bytes h @ rest) = Inr h"
  by (simp add: fh_decode_header fh.decode_of_bytes)

lemma decode_header_append:
  "HEADER_SIZE \<le> length xs \<Longrightarrow> decode_header (xs @ ys) = decode_header xs"
  by (simp add: decode_header_def)

lemma put_le_magic: "put_le 2 WIRE_MAGIC = [0x55, 0xAA]"
  by (simp add: put_le_def WIRE_MAGIC_def upt_bytes)

lemma get_le_magic: "length bs = 2 \<Longrightarrow> (get_le bs = WIRE_MAGIC) = (bs = [0x55, 0xAA])"
proof
  have two: "8 * 2 = LENGTH(16)" by simp
  show "bs = [0x55, 0xAA]" if "length bs = 2" "get_le bs = WIRE_MAGIC"
    using put_le_get_le [OF that(1) two] that(2) put_le_magic by simp
  show "get_le bs = WIRE_MAGIC" if "bs = [0x55, 0xAA]"
    using get_le_put_le [OF two, of WIRE_MAGIC] that put_le_magic by simp
qed

lemma length_fh_bytes [simp]: "length (fh_bytes h) = 12"
  using fh.length_to_bytes [of h] by (simp add: HEADER_SIZE_def)

text \<open>
  Encoding a frame header into any buffer with room and decoding it again, with anything after
  it, gives the header back when its magic is the protocol's; and whatever decode_header accepts
  has the magic and is byte for byte the encoding of what it returns.
\<close>

lemma frame_header_roundtrip:
  assumes "HEADER_SIZE \<le> alen buf" "fh_magic h = WIRE_MAGIC"
  shows "fst (encode_header h buf) = Inr HEADER_SIZE \<and>
    decode_header (apre (snd (encode_header h buf)) HEADER_SIZE @ rest) = Inr h \<and>
    (\<forall>bs h'. decode_header bs = Inr h' \<longrightarrow> fh_magic h' = WIRE_MAGIC \<and> take HEADER_SIZE bs = fh_bytes h')"
proof -
  have "fh_magic h' = WIRE_MAGIC \<and> take HEADER_SIZE bs = fh_bytes h'"
    if "decode_header bs = Inr h'" for bs h'
    using that fh.decode_prefix [of bs h']
    by (auto simp: fh_decode_header split: sum.splits if_splits)
  moreover have "fst (encode_header h buf) = Inr HEADER_SIZE"
    and "apre (snd (encode_header h buf)) HEADER_SIZE = fh_bytes h"
    using fh.encode_room [OF assms(1), of h] by (simp_all add: encode_header_def)
  ultimately show ?thesis
    using decode_header_bytes [OF assms(2), of rest] by simp
qed

text \<open>
  C25. decode_header fails in exactly two ways: BufferUnderflow when fewer than twelve bytes are
  there, ProtocolError when the first two bytes are not 55 AA.
\<close>

theorem decode_header_errors:
  "(decode_header bs = Inl e \<longleftrightarrow>
     length bs < 12 \<and> e = BufferUnderflow \<or>
     12 \<le> length bs \<and> take 2 bs \<noteq> [0x55, 0xAA] \<and> e = ProtocolError)"
proof (cases "length bs < 12")
  case True
  then show ?thesis by (auto simp: decode_header_def HEADER_SIZE_def)
next
  case False
  then have "fh_magic (fh_of_bytes (take HEADER_SIZE bs)) = get_le (take 2 bs)"
    by (simp add: fh_of_bytes_def HEADER_SIZE_def)
  moreover have "(get_le (take 2 bs) = WIRE_MAGIC) = (take 2 bs = [0x55, 0xAA])"
    using False by (intro get_le_magic) simp
  ultimately show ?thesis
    using False by (auto simp: decode_header_def HEADER_SIZE_def Let_def)
qed


end
