(* ===== verification/Fixed_Vector.thy ===== *)
theory Fixed_Vector
  imports Prelude
begin

text \<open>
  axiom::FixedVector of include/axiom/fixed_vector.hpp: a std::array with a size. The record keeps
  the array and the size as the class does; the capacity is the array's length. The locale
  \<open>bounded_vector\<close> is the contract its users rely on (the receive buffers, the symbol table, the
  node list and the snapshots), with the loops they run over it proved once.
\<close>

section \<open>The class\<close>

record 'a fvec =
  fv_data :: "'a arr"
  fv_size :: nat

definition fv_new :: "nat \<Rightarrow> 'a \<Rightarrow> 'a fvec" where
  "fv_new capacity x = \<lparr>fv_data = anew capacity x, fv_size = 0\<rparr>"

definition fv_capacity :: "'a fvec \<Rightarrow> nat" where
  "fv_capacity v = alen (fv_data v)"

definition fv_push_back :: "'a fvec \<Rightarrow> 'a \<Rightarrow> bool \<times> 'a fvec" where
  "fv_push_back v x =
     (if fv_size v \<ge> fv_capacity v then (False, v)
      else (True, v\<lparr>fv_data := aput (fv_data v) (fv_size v) x, fv_size := fv_size v + 1\<rparr>))"

text \<open>
  emplace_back constructs the element from its arguments and then does as push_back does: the
  constructor is the argument \<open>mk\<close>.
\<close>

definition fv_emplace_back :: "('b \<Rightarrow> 'a) \<Rightarrow> 'a fvec \<Rightarrow> 'b \<Rightarrow> bool \<times> 'a fvec" where
  "fv_emplace_back mk v args =
     (if fv_size v \<ge> fv_capacity v then (False, v)
      else (True, v\<lparr>fv_data := aput (fv_data v) (fv_size v) (mk args), fv_size := fv_size v + 1\<rparr>))"

definition fv_pop_back :: "'a fvec \<Rightarrow> bool \<times> 'a fvec" where
  "fv_pop_back v = (if fv_size v = 0 then (False, v) else (True, v\<lparr>fv_size := fv_size v - 1\<rparr>))"

definition fv_clear :: "'a fvec \<Rightarrow> 'a fvec" where
  "fv_clear v = v\<lparr>fv_size := 0\<rparr>"

definition fv_empty :: "'a fvec \<Rightarrow> bool" where
  "fv_empty v \<longleftrightarrow> fv_size v = 0"

definition fv_full :: "'a fvec \<Rightarrow> bool" where
  "fv_full v \<longleftrightarrow> fv_size v \<ge> fv_capacity v"

text \<open>as_span, and the range that begin and end delimit.\<close>

definition fv_as_span :: "'a fvec \<Rightarrow> 'a list" where
  "fv_as_span v = apre (fv_data v) (fv_size v)"

text \<open>
  operator[] reads data_[index]. The access is inside the std::array only below the capacity; None
  is the undefined behaviour of an access outside it.
\<close>

definition fv_index :: "'a fvec \<Rightarrow> nat \<Rightarrow> 'a option" where
  "fv_index v i = aread_chk (fv_data v) i"

definition fv_wf :: "'a fvec \<Rightarrow> bool" where
  "fv_wf v \<longleftrightarrow> fv_size v \<le> fv_capacity v"

section \<open>The contract\<close>

text \<open>
  Two loops of the users: appending the elements of a chunk until one does not fit (the receive
  loop of handle_client_event), and popping until a size is reached (the end of
  process_client_frames).
\<close>

fun push_all :: "('v \<Rightarrow> 'a \<Rightarrow> bool \<times> 'v) \<Rightarrow> 'v \<Rightarrow> 'a list \<Rightarrow> bool \<times> 'v" where
  "push_all push v [] = (True, v)"
| "push_all push v (x # xs) =
     (case push v x of (True, v') \<Rightarrow> push_all push v' xs | (False, v') \<Rightarrow> (False, v'))"

fun pop_times :: "('v \<Rightarrow> bool \<times> 'v) \<Rightarrow> nat \<Rightarrow> 'v \<Rightarrow> 'v" where
  "pop_times pop 0 v = v"
| "pop_times pop (Suc n) v = pop_times pop n (snd (pop v))"

locale bounded_vector =
  fixes push :: "'v \<Rightarrow> 'a \<Rightarrow> bool \<times> 'v"
    and pop :: "'v \<Rightarrow> bool \<times> 'v"
    and reset :: "'v \<Rightarrow> 'v"
    and room :: "'v \<Rightarrow> nat"
    and items :: "'v \<Rightarrow> 'a list"
    and wf :: "'v \<Rightarrow> bool"
  assumes push_fits: "wf v \<Longrightarrow> length (items v) < room v \<Longrightarrow>
             fst (push v x) \<and> items (snd (push v x)) = items v @ [x]"
    and push_full: "wf v \<Longrightarrow> room v \<le> length (items v) \<Longrightarrow> push v x = (False, v)"
    and wf_push: "wf v \<Longrightarrow> wf (snd (push v x))"
    and room_push: "room (snd (push v x)) = room v"
    and pop_some: "wf v \<Longrightarrow> items v \<noteq> [] \<Longrightarrow>
             fst (pop v) \<and> items (snd (pop v)) = butlast (items v)"
    and pop_none: "wf v \<Longrightarrow> items v = [] \<Longrightarrow> pop v = (False, v)"
    and wf_pop: "wf v \<Longrightarrow> wf (snd (pop v))"
    and room_pop: "room (snd (pop v)) = room v"
    and items_reset: "items (reset v) = []"
    and wf_reset: "wf (reset v)"
    and room_reset: "room (reset v) = room v"
    and items_room: "wf v \<Longrightarrow> length (items v) \<le> room v"
begin

lemma wf_push_all: "wf v \<Longrightarrow> wf (snd (push_all push v xs))"
proof (induction xs arbitrary: v)
  case Nil
  then show ?case by simp
next
  case (Cons x xs)
  then show ?case
    using wf_push [of v x] by (auto split: prod.splits bool.splits)
qed

lemma room_push_all: "room (snd (push_all push v xs)) = room v"
proof (induction xs arbitrary: v)
  case Nil
  then show ?case by simp
next
  case (Cons x xs)
  then show ?case
    using room_push [of v x] by (auto split: prod.splits bool.splits)
qed

lemma push_all_fits:
  "wf v \<Longrightarrow> length (items v) + length xs \<le> room v \<Longrightarrow>
   fst (push_all push v xs) \<and> items (snd (push_all push v xs)) = items v @ xs"
proof (induction xs arbitrary: v)
  case Nil
  then show ?case by simp
next
  case (Cons x xs)
  obtain ok v' where p: "push v x = (ok, v')" by (cases "push v x")
  with Cons.prems push_fits [of v x] have ok: "ok" and v': "items v' = items v @ [x]"
    by auto
  have "wf v'" "room v' = room v"
    using wf_push [of v x] room_push [of v x] Cons.prems p by auto
  with Cons.IH [of v'] Cons.prems v' show ?case
    by (simp add: p ok)
qed

lemma push_all_overflow:
  "wf v \<Longrightarrow> room v < length (items v) + length xs \<Longrightarrow> \<not> fst (push_all push v xs)"
proof (induction xs arbitrary: v)
  case Nil
  then show ?case using items_room [of v] by simp
next
  case (Cons x xs)
  show ?case
  proof (cases "length (items v) < room v")
    case False
    with Cons.prems have "push v x = (False, v)" by (intro push_full) auto
    then show ?thesis by simp
  next
    case True
    obtain ok v' where p: "push v x = (ok, v')" by (cases "push v x")
    with Cons.prems push_fits [of v x] True have v': "items v' = items v @ [x]"
      by auto
    have "wf v'" "room v' = room v"
      using wf_push [of v x] room_push [of v x] Cons.prems p by auto
    with Cons.IH [of v'] Cons.prems v' show ?thesis
      by (cases ok) (simp_all add: p)
  qed
qed

corollary push_all_iff:
  "wf v \<Longrightarrow> fst (push_all push v xs) \<longleftrightarrow> length (items v) + length xs \<le> room v"
  using push_all_fits [of v xs] push_all_overflow [of v xs] by (auto simp: not_le [symmetric])

lemma items_pop: "wf v \<Longrightarrow> items (snd (pop v)) = butlast (items v)"
  by (cases "items v = []") (simp_all add: pop_some pop_none)

lemma pop_times_items:
  "wf v \<Longrightarrow> items (pop_times pop n v) = take (length (items v) - n) (items v)"
proof (induction n arbitrary: v)
  case 0
  then show ?case by simp
next
  case (Suc n)
  have "items (pop_times pop n (snd (pop v)))
      = take (length (butlast (items v)) - n) (butlast (items v))"
    using Suc.IH [of "snd (pop v)"] Suc.prems by (simp add: wf_pop items_pop)
  also have "\<dots> = take (length (items v) - Suc n) (items v)"
    by (cases "items v" rule: rev_cases) auto
  finally show ?case by simp
qed

lemma wf_pop_times: "wf v \<Longrightarrow> wf (pop_times pop n v)"
  by (induction n arbitrary: v) (simp_all add: wf_pop)

lemma room_pop_times: "room (pop_times pop n v) = room v"
  by (induction n arbitrary: v) (simp_all add: room_pop)

end

lemma length_fv_as_span [simp]: "length (fv_as_span v) = fv_size v"
  by (simp add: fv_as_span_def)

lemma fv_as_span_new [simp]: "fv_as_span (fv_new n x) = []"
  by (simp add: fv_as_span_def fv_new_def)

lemma fv_capacity_new [simp]: "fv_capacity (fv_new n x) = n"
  by (simp add: fv_capacity_def fv_new_def)

lemma fv_size_new [simp]: "fv_size (fv_new n x) = 0"
  by (simp add: fv_new_def)

lemma fv_wf_new [simp]: "fv_wf (fv_new n x)"
  by (simp add: fv_wf_def)

lemma fv_as_span_clear [simp]: "fv_as_span (fv_clear v) = []"
  by (simp add: fv_as_span_def fv_clear_def)

lemma fv_capacity_clear [simp]: "fv_capacity (fv_clear v) = fv_capacity v"
  by (simp add: fv_capacity_def fv_clear_def)

lemma fv_size_clear [simp]: "fv_size (fv_clear v) = 0"
  by (simp add: fv_clear_def)

lemma fv_wf_clear [simp]: "fv_wf (fv_clear v)"
  by (simp add: fv_wf_def)

lemma butlast_apre: "butlast (apre a n) = apre a (n - 1)"
  by (cases n) (simp_all add: apre_Suc)

interpretation fv: bounded_vector fv_push_back fv_pop_back fv_clear fv_capacity fv_as_span fv_wf
proof
  fix v :: "'a fvec" and x :: 'a
  show "fv_wf v \<Longrightarrow> length (fv_as_span v) < fv_capacity v \<Longrightarrow>
      fst (fv_push_back v x) \<and> fv_as_span (snd (fv_push_back v x)) = fv_as_span v @ [x]"
    by (simp add: fv_push_back_def fv_as_span_def arr_simps)
  show "fv_wf v \<Longrightarrow> fv_capacity v \<le> length (fv_as_span v) \<Longrightarrow> fv_push_back v x = (False, v)"
    by (simp add: fv_push_back_def)
  show "fv_wf v \<Longrightarrow> fv_wf (snd (fv_push_back v x))"
    by (simp add: fv_push_back_def fv_wf_def fv_capacity_def)
  show "fv_capacity (snd (fv_push_back v x)) = fv_capacity v"
    by (simp add: fv_push_back_def fv_capacity_def)
  show "fv_wf v \<Longrightarrow> fv_as_span v \<noteq> [] \<Longrightarrow>
      fst (fv_pop_back v) \<and> fv_as_span (snd (fv_pop_back v)) = butlast (fv_as_span v)"
    by (cases "fv_size v") (auto simp: fv_pop_back_def fv_as_span_def butlast_apre)
  show "fv_wf v \<Longrightarrow> fv_as_span v = [] \<Longrightarrow> fv_pop_back v = (False, v)"
    by (simp add: fv_pop_back_def flip: length_0_conv)
  show "fv_wf v \<Longrightarrow> fv_wf (snd (fv_pop_back v))"
    by (auto simp: fv_pop_back_def fv_wf_def fv_capacity_def)
  show "fv_capacity (snd (fv_pop_back v)) = fv_capacity v"
    by (simp add: fv_pop_back_def fv_capacity_def)
  show "fv_as_span (fv_clear v) = []" by simp
  show "fv_wf (fv_clear v)" by simp
  show "fv_capacity (fv_clear v) = fv_capacity v" by simp
  show "fv_wf v \<Longrightarrow> length (fv_as_span v) \<le> fv_capacity v"
    by (simp add: fv_wf_def)
qed

lemma fv_full_iff: "fv_full v \<longleftrightarrow> fv_capacity v \<le> length (fv_as_span v)"
  by (simp add: fv_full_def)

text \<open>The flag and the contents after one push, in one equation for the users' simplifier.\<close>

lemma fv_as_span_push:
  "fv_wf v \<Longrightarrow> fv_as_span (snd (fv_push_back v x)) =
     (if fv_size v < fv_capacity v then fv_as_span v @ [x] else fv_as_span v)"
  using fv.push_fits [of v x] fv.push_full [of v x] by auto

lemma fv_size_push:
  "fv_size (snd (fv_push_back v x)) =
     (if fv_size v < fv_capacity v then Suc (fv_size v) else fv_size v)"
  by (simp add: fv_push_back_def)

end
