(* ===== verification/Diff.thy ===== *)
theory Diff
  imports Fixed_Vector
begin

text \<open>
  The workspace diff of include/axiom/diff.hpp: bounded snapshots of a directory tree
  (DirectorySnapshot) and the summary of two of them (compute_diff). The kernel's directory calls
  are the parameter \<open>dir_os\<close>: whether a directory opens, the entry names that successive
  getdents64 calls return (the list ends where the call returns zero or less), and fstatat. A
  snapshot is taken in one state of the tree, so the parameter does not change during a capture.
\<close>

section \<open>Records\<close>

definition MAX_SNAPSHOT_FILES :: nat where
  "MAX_SNAPSHOT_FILES = 256"

definition MAX_PATH_LEN :: nat where
  "MAX_PATH_LEN = 128"

definition MAX_SCAN_DEPTH :: nat where
  "MAX_SCAN_DEPTH = 4"

text \<open>
  FileRecord. The path array holds a NUL-terminated string shorter than 128 bytes; \<open>fr_path\<close> is
  that string, which path_view returns.
\<close>

record file_record =
  fr_path :: string
  fr_ino :: u64
  fr_size :: u64
  fr_mtime_sec :: u64
  fr_mtime_nsec :: u64
  fr_mode :: u32

record stat =
  st_ino :: u64
  st_size :: u64
  st_mtim_sec :: u64
  st_mtim_nsec :: u64
  st_mode :: u32

record dir_os =
  os_open_dir :: "string \<Rightarrow> bool"
  os_getdents :: "string \<Rightarrow> string list list"
  os_fstatat :: "string \<Rightarrow> string \<Rightarrow> stat option"

definition S_ISDIR :: "u32 \<Rightarrow> bool" where
  "S_ISDIR mode \<longleftrightarrow> mode AND 0xF000 = 0x4000"

definition S_ISREG :: "u32 \<Rightarrow> bool" where
  "S_ISREG mode \<longleftrightarrow> mode AND 0xF000 = 0x8000"

definition S_ISLNK :: "u32 \<Rightarrow> bool" where
  "S_ISLNK mode \<longleftrightarrow> mode AND 0xF000 = 0xA000"

text \<open>The part of a char array that C string functions see.\<close>

definition c_str :: "string \<Rightarrow> string" where
  "c_str s = takeWhile (\<lambda>c. c \<noteq> CHR 0x00) s"

section \<open>Capturing a snapshot\<close>

definition record_of :: "string \<Rightarrow> stat \<Rightarrow> file_record" where
  "record_of full_path st =
     \<lparr>fr_path = full_path, fr_ino = st_ino st, fr_size = st_size st,
      fr_mtime_sec = st_mtim_sec st, fr_mtime_nsec = st_mtim_nsec st, fr_mode = st_mode st\<rparr>"

definition file_record_init :: file_record where
  "file_record_init = \<lparr>fr_path = [], fr_ino = 0, fr_size = 0, fr_mtime_sec = 0,
     fr_mtime_nsec = 0, fr_mode = 0\<rparr>"

text \<open>
  One directory entry, with the recursive call as an argument; then the two loops over a buffer of
  entries and over the getdents64 calls, each guarded by the number of entries.
\<close>

definition scan_entry ::
  "(string \<Rightarrow> file_record fvec \<Rightarrow> file_record fvec) \<Rightarrow> dir_os \<Rightarrow> string \<Rightarrow> string \<Rightarrow>
   file_record fvec \<Rightarrow> file_record fvec" where
  "scan_entry scan os dir_path d_name entries =
     (if d_name = ''.'' \<or> d_name = ''..'' then entries
      else let full_path = dir_path @ ''/'' @ d_name in
        if length full_path < MAX_PATH_LEN then
          (case os_fstatat os dir_path d_name of
             None \<Rightarrow> entries
           | Some st \<Rightarrow>
               if S_ISDIR (st_mode st) then scan full_path entries
               else if S_ISREG (st_mode st) \<or> S_ISLNK (st_mode st)
                 then snd (fv_push_back entries (record_of full_path st))
               else entries)
        else entries)"

fun scan_buffer ::
  "(string \<Rightarrow> file_record fvec \<Rightarrow> file_record fvec) \<Rightarrow> dir_os \<Rightarrow> string \<Rightarrow> string list \<Rightarrow>
   file_record fvec \<Rightarrow> file_record fvec" where
  "scan_buffer scan os dir_path [] entries = entries"
| "scan_buffer scan os dir_path (d # ds) entries =
     (if fv_size entries < MAX_SNAPSHOT_FILES
      then scan_buffer scan os dir_path ds (scan_entry scan os dir_path d entries)
      else entries)"

fun scan_calls ::
  "(string \<Rightarrow> file_record fvec \<Rightarrow> file_record fvec) \<Rightarrow> dir_os \<Rightarrow> string \<Rightarrow> string list list \<Rightarrow>
   file_record fvec \<Rightarrow> file_record fvec" where
  "scan_calls scan os dir_path [] entries = entries"
| "scan_calls scan os dir_path (b # bs) entries =
     (if fv_size entries < MAX_SNAPSHOT_FILES
      then scan_calls scan os dir_path bs (scan_buffer scan os dir_path b entries)
      else entries)"

text \<open>scan_recursive counts the depth up to MAX_SCAN_DEPTH; the argument counts what is left of it.\<close>

primrec scan_levels ::
  "nat \<Rightarrow> dir_os \<Rightarrow> string \<Rightarrow> file_record fvec \<Rightarrow> file_record fvec" where
  "scan_levels 0 os dir_path entries = entries"
| "scan_levels (Suc n) os dir_path entries =
     (if fv_size entries \<ge> MAX_SNAPSHOT_FILES then entries
      else if \<not> os_open_dir os dir_path then entries
      else scan_calls (scan_levels n os) os dir_path (os_getdents os dir_path) entries)"

definition scan_recursive ::
  "dir_os \<Rightarrow> string \<Rightarrow> nat \<Rightarrow> file_record fvec \<Rightarrow> file_record fvec" where
  "scan_recursive os dir_path depth entries = scan_levels (MAX_SCAN_DEPTH - depth) os dir_path entries"

type_synonym snapshot = "file_record fvec"

definition snapshot_init :: snapshot where
  "snapshot_init = fv_new MAX_SNAPSHOT_FILES file_record_init"

definition capture :: "dir_os \<Rightarrow> snapshot \<Rightarrow> string \<Rightarrow> unit result \<times> snapshot" where
  "capture os s base_path =
     (let s = fv_clear s in
      if base_path = [] \<or> length base_path \<ge> MAX_PATH_LEN then (Inl InvalidArgument, s)
      else (Inr (), scan_recursive os (c_str base_path) 0 s))"

definition entries :: "snapshot \<Rightarrow> file_record list" where
  "entries s = fv_as_span s"

section \<open>Computing the diff\<close>

text \<open>
  snprintf into dest at an offset writes at most the remaining size, the last byte of it a NUL, and
  returns the length of the whole text; the offset moves only when all of it fitted.
\<close>

definition snprintf_at :: "char arr \<Rightarrow> nat \<Rightarrow> string \<Rightarrow> char arr" where
  "snprintf_at dest off s =
     (if alen dest - off = 0 then dest
      else acopy dest off (take (alen dest - off - 1) s @ [CHR 0x00]))"

definition append_line :: "char arr \<times> nat \<Rightarrow> string \<Rightarrow> char arr \<times> nat" where
  "append_line = (\<lambda>(dest, written_total) s.
     (snprintf_at dest written_total s,
      if 0 < length s \<and> length s < alen dest - written_total
      then written_total + length s else written_total))"

definition find_record :: "string \<Rightarrow> file_record list \<Rightarrow> file_record option" where
  "find_record path rs = find (\<lambda>r. fr_path r = path) rs"

definition size_text :: "u64 \<Rightarrow> string" where
  "size_text n = decimal (unat n)"

definition diff_post_step ::
  "snapshot \<Rightarrow> char arr \<times> nat \<Rightarrow> file_record \<Rightarrow> char arr \<times> nat" where
  "diff_post_step pre out cur =
     (case find_record (fr_path cur) (entries pre) of
        None \<Rightarrow> append_line out (''+ '' @ fr_path cur @ '' ('' @ size_text (fr_size cur) @ '' B)'' @ [CHR 0x0A])
      | Some old_rec \<Rightarrow>
          if fr_size old_rec \<noteq> fr_size cur \<or> fr_mtime_sec old_rec \<noteq> fr_mtime_sec cur \<or>
             fr_mtime_nsec old_rec \<noteq> fr_mtime_nsec cur
          then append_line out (''M '' @ fr_path cur @ '' ('' @ size_text (fr_size old_rec) @
                 '' -> '' @ size_text (fr_size cur) @ '' B)'' @ [CHR 0x0A])
          else out)"

definition diff_pre_step ::
  "snapshot \<Rightarrow> char arr \<times> nat \<Rightarrow> file_record \<Rightarrow> char arr \<times> nat" where
  "diff_pre_step post out prev =
     (case find_record (fr_path prev) (entries post) of
        None \<Rightarrow> append_line out (''- '' @ fr_path prev @ [CHR 0x0A])
      | Some _ \<Rightarrow> out)"

definition compute_diff :: "snapshot \<Rightarrow> snapshot \<Rightarrow> char arr \<Rightarrow> nat \<times> char arr" where
  "compute_diff pre post dest =
     (if alen dest = 0 then (0, dest)
      else let out = foldl (diff_post_step pre) (dest, 0) (entries post);
               out = foldl (diff_pre_step post) out (entries pre)
           in (snd out, fst out))"

section \<open>The changes a diff reports\<close>

datatype change = Added string u64 | Modified string u64 u64 | Removed string

fun change_line :: "change \<Rightarrow> string" where
  "change_line (Added p n) = ''+ '' @ p @ '' ('' @ size_text n @ '' B)'' @ [CHR 0x0A]"
| "change_line (Modified p m n) =
     ''M '' @ p @ '' ('' @ size_text m @ '' -> '' @ size_text n @ '' B)'' @ [CHR 0x0A]"
| "change_line (Removed p) = ''- '' @ p @ [CHR 0x0A]"

definition same_meta :: "file_record \<Rightarrow> file_record \<Rightarrow> bool" where
  "same_meta a b \<longleftrightarrow> fr_size a = fr_size b \<and> fr_mtime_sec a = fr_mtime_sec b \<and>
     fr_mtime_nsec a = fr_mtime_nsec b"

definition post_change :: "file_record list \<Rightarrow> file_record \<Rightarrow> change list" where
  "post_change pre cur =
     (case find_record (fr_path cur) pre of
        None \<Rightarrow> [Added (fr_path cur) (fr_size cur)]
      | Some old \<Rightarrow> if same_meta old cur then []
                    else [Modified (fr_path cur) (fr_size old) (fr_size cur)])"

definition pre_change :: "file_record list \<Rightarrow> file_record \<Rightarrow> change list" where
  "pre_change post prev =
     (case find_record (fr_path prev) post of None \<Rightarrow> [Removed (fr_path prev)] | Some _ \<Rightarrow> [])"

definition changes :: "file_record list \<Rightarrow> file_record list \<Rightarrow> change list" where
  "changes pre post = concat (map (post_change pre) post) @ concat (map (pre_change post) pre)"

text \<open>What fits: a line is kept when it is shorter than the space that is left, else skipped.\<close>

fun fit :: "nat \<Rightarrow> string list \<Rightarrow> string" where
  "fit n [] = []"
| "fit n (l # ls) = (if length l < n then l @ fit (n - length l) ls else fit n ls)"

definition diff_text :: "nat \<Rightarrow> file_record list \<Rightarrow> file_record list \<Rightarrow> string" where
  "diff_text n pre post = fit n (map change_line (changes pre post))"

lemma fit_append: "fit n (xs @ ys) = fit n xs @ fit (n - length (fit n xs)) ys"
  by (induction n xs rule: fit.induct) auto

lemma fit_length: "0 < n \<Longrightarrow> length (fit n ls) < n"
proof (induction n ls rule: fit.induct)
  case (2 n l ls)
  then show ?case by (cases "length l < n") auto
qed simp

lemma fit_all: "length (concat ls) < n \<Longrightarrow> fit n ls = concat ls"
  by (induction n ls rule: fit.induct) auto

lemma change_line_nonempty [simp]: "change_line c \<noteq> []"
  by (cases c) simp_all

text \<open>Appending one line to a buffer whose used prefix is \<open>t\<close>.\<close>

lemma append_line_spec:
  assumes "w < alen dest" "s \<noteq> []"
  shows "alen (fst (append_line (dest, w) s)) = alen dest \<and>
     snd (append_line (dest, w) s) = w + length (fit (alen dest - w) [s]) \<and>
     apre (fst (append_line (dest, w) s)) (snd (append_line (dest, w) s)) =
       apre dest w @ fit (alen dest - w) [s]"
proof (cases "length s < alen dest - w")
  case True
  let ?d = "acopy dest w (s @ [CHR 0x00])"
  have "take (length s) (drop w (apre ?d (w + length (s @ [CHR 0x00])))) = s"
    by (simp only: apre_acopy) simp
  then have "apre ?d (w + length s) = apre dest w @ s"
    using apre_acopy [of dest w "s @ [CHR 0x00]"] by (simp add: apre_Suc)
  with True assms show ?thesis
    by (simp add: append_line_def snprintf_at_def)
next
  case False
  with assms show ?thesis
    by (simp add: append_line_def snprintf_at_def arr_simps)
qed

text \<open>A state of the two loops: the text so far is the prefix of the buffer.\<close>

definition diff_inv :: "nat \<Rightarrow> string \<Rightarrow> char arr \<times> nat \<Rightarrow> bool" where
  "diff_inv n t out \<longleftrightarrow>
     alen (fst out) = n \<and> snd out = length t \<and> length t < n \<and> apre (fst out) (snd out) = t"

lemma diff_inv_append:
  "diff_inv n t out \<Longrightarrow> s \<noteq> [] \<Longrightarrow> diff_inv n (t @ fit (n - length t) [s]) (append_line out s)"
  using append_line_spec [of "snd out" "fst out" s] fit_length [of "n - length t" "[s]"]
  by (cases out) (auto simp: diff_inv_def split: if_splits)

lemma diff_inv_step:
  assumes "\<And>x t out. diff_inv n t out \<Longrightarrow>
      diff_inv n (t @ fit (n - length t) (map change_line (g x))) (step out x)"
  shows "diff_inv n t out \<Longrightarrow>
    diff_inv n (t @ fit (n - length t) (map change_line (concat (map g xs)))) (foldl step out xs)"
proof (induction xs arbitrary: t out)
  case Nil
  then show ?case by simp
next
  case (Cons x xs)
  show ?case
    using Cons.IH [OF assms [OF Cons.prems, of x]] by (simp add: fit_append)
qed

lemma diff_post_step_inv:
  "diff_inv n t out \<Longrightarrow>
   diff_inv n (t @ fit (n - length t) (map change_line (post_change (entries pre) x)))
     (diff_post_step pre out x)"
  using diff_inv_append [of n t out] change_line.simps(1,2) [symmetric]
  by (auto simp: diff_post_step_def post_change_def same_meta_def split: option.splits
      simp del: fit.simps(2)) 

lemma diff_pre_step_inv:
  "diff_inv n t out \<Longrightarrow>
   diff_inv n (t @ fit (n - length t) (map change_line (pre_change (entries post) x)))
     (diff_pre_step post out x)"
  using diff_inv_append [of n t out]
  by (auto simp: diff_pre_step_def pre_change_def split: option.splits simp del: fit.simps(2))

lemma compute_diff_refines:
  "0 < alen dest \<Longrightarrow>
   diff_inv (alen dest) (diff_text (alen dest) (entries pre) (entries post))
     (snd (compute_diff pre post dest), fst (compute_diff pre post dest))"
proof -
  assume "0 < alen dest"
  then have "diff_inv (alen dest) [] (dest, 0)" by (simp add: diff_inv_def)
  from diff_inv_step [where g = "post_change (entries pre)" and xs = "entries post",
      OF diff_post_step_inv this]
  have "diff_inv (alen dest)
      (fit (alen dest) (map change_line (concat (map (post_change (entries pre)) (entries post)))))
      (foldl (diff_post_step pre) (dest, 0) (entries post))"
    by simp
  from diff_inv_step [where g = "pre_change (entries post)" and xs = "entries pre",
      OF diff_pre_step_inv this] \<open>0 < alen dest\<close>
  show ?thesis
    by (simp add: compute_diff_def diff_text_def changes_def fit_append Let_def)
qed

text \<open>
  C9. compute_diff writes exactly the reported change lines, in order: one line per added or
  modified file of the second snapshot, then one per removed file of the first. A line that does not
  fit in what is left of the destination is skipped whole, so the text never holds a partial line,
  and the returned length stays below the destination's size.
\<close>

theorem compute_diff_text:
  "apre (snd (compute_diff pre post dest)) (fst (compute_diff pre post dest)) =
     (if alen dest = 0 then [] else diff_text (alen dest) (entries pre) (entries post)) \<and>
   (fst (compute_diff pre post dest) < alen dest \<or> alen dest = 0)"
  using compute_diff_refines [of dest pre post]
  by (cases "alen dest = 0") (auto simp: diff_inv_def compute_diff_def)

text \<open>
  With room for all of them, the destination holds every change line: nothing is dropped.
\<close>

lemma compute_diff_complete:
  assumes "length (concat (map change_line (changes (entries pre) (entries post)))) < alen dest"
  shows "apre (snd (compute_diff pre post dest)) (fst (compute_diff pre post dest)) =
    concat (map change_line (changes (entries pre) (entries post)))"
proof -
  have "0 < alen dest" using assms by simp
  from compute_diff_refines [OF this, of pre post] fit_all [OF assms] show ?thesis
    unfolding diff_inv_def diff_text_def by (metis fst_conv snd_conv)
qed

definition one_file :: "string \<Rightarrow> u64 \<Rightarrow> snapshot" where
  "one_file p n =
     snd (fv_push_back snapshot_init (file_record_init\<lparr>fr_path := p, fr_size := n\<rparr>))"

lemma entries_one_file: "entries (one_file p n) = [file_record_init\<lparr>fr_path := p, fr_size := n\<rparr>]"
  using fv_as_span_push [of snapshot_init "file_record_init\<lparr>fr_path := p, fr_size := n\<rparr>"]
  by (simp add: entries_def one_file_def snapshot_init_def MAX_SNAPSHOT_FILES_def)

lemma changes_one_file:
  "changes (entries (one_file ''a'' 1)) (entries (one_file ''b'' 1)) = [Added ''b'' 1, Removed ''a'']"
  by (simp add: entries_one_file changes_def post_change_def pre_change_def find_record_def)

section \<open>Replaying a diff\<close>

text \<open>The sizes by path of a snapshot, and the effect of a reported change on them.\<close>

definition sizes :: "file_record list \<Rightarrow> string \<rightharpoonup> u64" where
  "sizes rs = (\<lambda>p. map_option fr_size (find_record p rs))"

fun apply_change :: "change \<Rightarrow> (string \<rightharpoonup> u64) \<Rightarrow> (string \<rightharpoonup> u64)" where
  "apply_change (Added p n) m = m(p \<mapsto> n)"
| "apply_change (Modified p k n) m = m(p \<mapsto> n)"
| "apply_change (Removed p) m = m(p := None)"

lemma find_record_Nil [simp]: "find_record q [] = None"
  by (simp add: find_record_def)

lemma find_record_Cons [simp]:
  "find_record q (r # rs) = (if fr_path r = q then Some r else find_record q rs)"
  by (simp add: find_record_def)

lemma find_record_None: "find_record q rs = None \<longleftrightarrow> q \<notin> fr_path ` set rs"
  by (induction rs) auto

lemma find_record_path: "find_record q rs = Some r \<Longrightarrow> fr_path r = q \<and> r \<in> set rs"
  by (induction rs) (auto split: if_splits)

lemma fold_post_other:
  "q \<notin> fr_path ` set post \<Longrightarrow>
   fold apply_change (concat (map (post_change pre) post)) m q = m q"
proof (induction post arbitrary: m)
  case (Cons c post)
  then show ?case by (auto simp: post_change_def split: option.splits)
qed simp

lemma fold_post:
  "distinct (map fr_path post) \<Longrightarrow> find_record q post = Some c \<Longrightarrow>
   fold apply_change (concat (map (post_change pre) post)) m q =
     (case find_record q pre of
        None \<Rightarrow> Some (fr_size c)
      | Some old \<Rightarrow> if same_meta old c then m q else Some (fr_size c))"
proof (induction post arbitrary: m)
  case (Cons d post)
  show ?case
  proof (cases "fr_path d = q")
    case True
    with Cons.prems have cd: "c = d" and "q \<notin> fr_path ` set post" by auto
    then have "fold apply_change (concat (map (post_change pre) (d # post))) m q =
        fold apply_change (post_change pre d) m q"
      by (simp add: fold_post_other)
    moreover have "fold apply_change (post_change pre d) m q =
        (case find_record q pre of
           None \<Rightarrow> Some (fr_size c)
         | Some old \<Rightarrow> if same_meta old c then m q else Some (fr_size c))"
      using True cd by (auto simp: post_change_def split: option.splits)
    ultimately show ?thesis by simp
  next
    case False
    then have "fold apply_change (post_change pre d) m q = m q" for m
      by (auto simp: post_change_def split: option.splits)
    with False Cons show ?thesis by (simp split: option.splits)
  qed
qed simp

lemma fold_pre:
  "fold apply_change (concat (map (pre_change post) pre)) m q =
     (if q \<in> fr_path ` set pre \<and> q \<notin> fr_path ` set post then None else m q)"
proof (induction pre arbitrary: m)
  case (Cons d pre)
  have "fold apply_change (pre_change post d) m q =
      (if q = fr_path d \<and> q \<notin> fr_path ` set post then None else m q)"
    using find_record_None [of "fr_path d" post]
    by (auto simp: pre_change_def split: option.splits)
  with Cons show ?case by auto
qed simp



section \<open>What a snapshot holds\<close>

text \<open>
  A snapshot that a scan of the tree below \<open>base\<close> may produce: at most 256 records, each of a
  regular file or a symbolic link below \<open>base\<close>, each path short enough for the record.
\<close>

definition snapshot_ok :: "string \<Rightarrow> snapshot \<Rightarrow> bool" where
  "snapshot_ok base s \<longleftrightarrow> fv_wf s \<and> fv_capacity s = MAX_SNAPSHOT_FILES \<and>
     (\<forall>r \<in> set (entries s). (\<exists>t. fr_path r = base @ ''/'' @ t) \<and> length (fr_path r) < MAX_PATH_LEN \<and>
        (S_ISREG (fr_mode r) \<or> S_ISLNK (fr_mode r)))"

definition below :: "string \<Rightarrow> string \<Rightarrow> bool" where
  "below base dir \<longleftrightarrow> dir = base \<or> (\<exists>t. dir = base @ ''/'' @ t)"

lemma below_child: "below base dir \<Longrightarrow> \<exists>t. dir @ ''/'' @ d = base @ ''/'' @ t"
  by (auto simp: below_def)

lemma scan_entry_ok:
  assumes "snapshot_ok base s" "below base dir"
    and "\<And>p s. snapshot_ok base s \<Longrightarrow> below base p \<Longrightarrow> snapshot_ok base (scan p s)"
  shows "snapshot_ok base (scan_entry scan os dir d s)"
proof -
  have push: "snapshot_ok base (snd (fv_push_back s (record_of (dir @ ''/'' @ d) st)))"
    if "length (dir @ ''/'' @ d) < MAX_PATH_LEN" "S_ISREG (st_mode st) \<or> S_ISLNK (st_mode st)" for st
    using assms(1) below_child [OF assms(2), of d] that
    by (auto simp: snapshot_ok_def entries_def fv.wf_push fv.room_push fv_as_span_push record_of_def
        split: if_splits)
  have "below base (dir @ ''/'' @ d)"
    using below_child [OF assms(2), of d] by (auto simp: below_def)
  then show ?thesis
    using assms push by (auto simp: scan_entry_def Let_def split: option.splits)
qed

lemma scan_buffer_ok:
  assumes "below base dir"
    and "\<And>p s. snapshot_ok base s \<Longrightarrow> below base p \<Longrightarrow> snapshot_ok base (scan p s)"
  shows "snapshot_ok base s \<Longrightarrow> snapshot_ok base (scan_buffer scan os dir ds s)"
  by (induction ds arbitrary: s) (simp_all add: scan_entry_ok assms)

lemma scan_calls_ok:
  assumes "below base dir"
    and "\<And>p s. snapshot_ok base s \<Longrightarrow> below base p \<Longrightarrow> snapshot_ok base (scan p s)"
  shows "snapshot_ok base s \<Longrightarrow> snapshot_ok base (scan_calls scan os dir bs s)"
  by (induction bs arbitrary: s) (simp_all add: scan_buffer_ok assms)

lemma scan_levels_ok:
  "snapshot_ok base s \<Longrightarrow> below base dir \<Longrightarrow> snapshot_ok base (scan_levels n os dir s)"
  by (induction n arbitrary: dir s) (simp_all add: scan_calls_ok)

text \<open>
  C33. A capture is rejected exactly for an empty or too long base path and then leaves the snapshot
  empty; otherwise, whatever the directory tree holds, it keeps at most 256 records, all of regular
  files or links below the base path with paths shorter than 128 bytes.
\<close>

theorem capture_bounded:
  assumes "fv_capacity s = MAX_SNAPSHOT_FILES"
  shows "(fst (capture os s base) = Inl InvalidArgument \<longleftrightarrow> base = [] \<or> 128 \<le> length base) \<and>
    (base = [] \<or> 128 \<le> length base \<longrightarrow> entries (snd (capture os s base)) = []) \<and>
    snapshot_ok (c_str base) (snd (capture os s base)) \<and>
    length (entries (snd (capture os s base))) \<le> 256"
proof -
  have "snapshot_ok (c_str base) (fv_clear s)"
    using assms by (simp add: snapshot_ok_def entries_def)
  then have ok: "snapshot_ok (c_str base) (snd (capture os s base))"
    by (simp add: capture_def Let_def scan_recursive_def scan_levels_ok below_def)
  then have "length (entries (snd (capture os s base))) \<le> 256"
    using fv.items_room [of "snd (capture os s base)"]
    by (simp add: snapshot_ok_def entries_def MAX_SNAPSHOT_FILES_def)
  with ok show ?thesis
    by (simp add: capture_def Let_def MAX_PATH_LEN_def entries_def)
qed

theorem capture_bounded_witness:
  "fst (capture \<lparr>os_open_dir = (\<lambda>_. False), os_getdents = (\<lambda>_. []), os_fstatat = (\<lambda>_ _. None)\<rparr>
     snapshot_init []) = Inl InvalidArgument"
  using capture_bounded [of snapshot_init
      "\<lparr>os_open_dir = (\<lambda>_. False), os_getdents = (\<lambda>_. []), os_fstatat = (\<lambda>_ _. None)\<rparr>" "[]"]
  by (simp add: snapshot_init_def)

section \<open>The snapshot bound\<close>

text \<open>A directory that holds only regular files, all of them listed in one call.\<close>

definition flat_stat :: stat where
  "flat_stat = \<lparr>st_ino = 1, st_size = 1, st_mtim_sec = 0, st_mtim_nsec = 0, st_mode = 0x81A4\<rparr>"

definition flat_os :: "string \<Rightarrow> string list \<Rightarrow> dir_os" where
  "flat_os dir names =
     \<lparr>os_open_dir = (\<lambda>d. d = dir), os_getdents = (\<lambda>d. [names]),
      os_fstatat = (\<lambda>d n. if d = dir \<and> n \<in> set names then Some flat_stat else None)\<rparr>"

definition flat_name :: "string \<Rightarrow> string \<Rightarrow> bool" where
  "flat_name dir n \<longleftrightarrow> n \<noteq> ''.'' \<and> n \<noteq> ''..'' \<and> length (dir @ ''/'' @ n) < MAX_PATH_LEN"

lemma flat_regular [simp]: "\<not> S_ISDIR (st_mode flat_stat)" "S_ISREG (st_mode flat_stat)"
  by (simp_all add: S_ISDIR_def S_ISREG_def flat_stat_def)

lemma scan_buffer_flat:
  assumes "\<forall>n \<in> set ds. flat_name dir n \<and> n \<in> set names"
  shows "fv_wf s \<Longrightarrow> fv_capacity s = MAX_SNAPSHOT_FILES \<Longrightarrow>
    fv_as_span (scan_buffer scan (flat_os dir names) dir ds s) =
    take MAX_SNAPSHOT_FILES
      (fv_as_span s @ map (\<lambda>n. record_of (dir @ ''/'' @ n) flat_stat) ds)"
  using assms
proof (induction ds arbitrary: s)
  case Nil
  then show ?case by (simp add: fv_wf_def)
next
  case (Cons d ds)
  let ?r = "record_of (dir @ ''/'' @ d) flat_stat"
  show ?case
  proof (cases "fv_size s < MAX_SNAPSHOT_FILES")
    case True
    have "scan_entry scan (flat_os dir names) dir d s = snd (fv_push_back s ?r)"
      using Cons.prems by (simp add: scan_entry_def flat_os_def flat_name_def)
    with True Cons fv_as_span_push [of s ?r] show ?thesis
      by (simp add: fv.wf_push fv.room_push fv_size_push take_Cons')
  next
    case False
    with Cons.prems show ?thesis by (simp add: fv_wf_def)
  qed
qed

lemma capture_flat:
  assumes "dir \<noteq> []" "length dir < MAX_PATH_LEN" "c_str dir = dir" "\<forall>n \<in> set names. flat_name dir n"
  shows "entries (snd (capture (flat_os dir names) snapshot_init dir)) =
    take MAX_SNAPSHOT_FILES (map (\<lambda>n. record_of (dir @ ''/'' @ n) flat_stat) names)"
proof -
  let ?os = "flat_os dir names"
  have depth: "scan_recursive os dir 0 s = scan_levels (Suc 3) os dir s" for os s
    by (simp add: scan_recursive_def MAX_SCAN_DEPTH_def)
  have "snd (capture ?os snapshot_init dir) = scan_levels (Suc 3) ?os dir (fv_clear snapshot_init)"
    using assms(1-3) by (simp add: capture_def Let_def depth del: scan_levels.simps)
  also have "\<dots> = scan_buffer (scan_levels 3 ?os) ?os dir names (fv_clear snapshot_init)"
    unfolding scan_levels.simps by (simp add: flat_os_def MAX_SNAPSHOT_FILES_def)
  finally have "snd (capture ?os snapshot_init dir) =
      scan_buffer (scan_levels 3 ?os) ?os dir names (fv_clear snapshot_init)" .
  with scan_buffer_flat [of names dir names "fv_clear snapshot_init"] assms(4) show ?thesis
    by (simp add: entries_def snapshot_init_def)
qed



end
