(* ===== verification/Process.thy ===== *)
theory Process
  imports Runtime Ring_Buffer Ansi Wire Diff
begin

text \<open>
  ProcessRunner of include/axiom/process.hpp: a command runs in a child whose output comes through a
  pipe into the ring buffer while an epoll loop watches the pipe, the child and the clock; then the
  output is linearised and filtered, and the changes of the watched directory are computed. The
  parent's side is \<open>process_run\<close>; what the child does before it becomes the command is
  \<open>execute_child\<close>. The directory is read through \<open>dirs\<close>, the file system at each point of the log.
\<close>

section \<open>Options and results\<close>

definition RING_BUFFER_CAPACITY :: nat where
  "RING_BUFFER_CAPACITY = 65536"

record exec_options =
  xo_command :: string
  xo_working_dir :: string
  xo_timeout_ms :: u32
  xo_flags :: u32

record exec_result =
  er_exit_code :: i32
  er_flags :: u32
  er_cpu_cycles :: u64
  er_output_len :: nat
  er_diff_len :: nat

record runner =
  pr_ring :: ring
  pr_ansi :: state

definition runner_init :: runner where
  "runner_init = \<lparr>pr_ring = rb_new RING_BUFFER_CAPACITY, pr_ansi = Ground\<rparr>"

section \<open>The child\<close>

text \<open>
  The calls of the child: its output goes to the pipe, the working directory and the command are
  copied into fixed buffers, and the shell, or the command itself where there is no shell, is run.
\<close>

definition child_env :: "string list" where
  "child_env = [''PATH=/bin:/sbin:/usr/bin:/usr/sbin'', ''HOME=/root'', ''TERM=dumb'']"

definition execute_child :: "env \<Rightarrow> exec_options \<Rightarrow> int \<times> int \<Rightarrow> log \<Rightarrow> log" where
  "execute_child env opts pipe_fds log =
     (let l1 = log @ [EvSignal (Call_Sigmask []), EvProcess (Call_Dup2 (snd pipe_fds) 1),
                      EvProcess (Call_Dup2 (snd pipe_fds) 2)];
          l2 = sys_close (snd pipe_fds) (sys_close (fst pipe_fds) l1);
          cwd_buf = take 255 (xo_working_dir opts);
          l3 = (if xo_working_dir opts \<noteq> [] then l2 @ [EvProcess (Call_Chdir (c_str cwd_buf))] else l2);
          cmd_buf = take 511 (xo_command opts);
          l4 = l3 @ [EvFile (Call_Access ''/bin/sh'')]
      in if e_access env l3 ''/bin/sh''
         then l4 @ [EvProcess (Call_Exec ''/bin/sh'' [''sh'', ''-c'', c_str cmd_buf] None)]
         else l4 @ [EvProcess (Call_Exec (c_str cmd_buf) [c_str cmd_buf] (Some child_env))])"

section \<open>Watching the child\<close>

definition kill_child :: "int \<Rightarrow> int \<Rightarrow> log \<Rightarrow> log" where
  "kill_child child_pid pidfd log =
     log @ [EvProcess (if pidfd \<ge> 0 then Call_Pidfd_Kill pidfd SIGKILL else Call_Kill child_pid SIGKILL)]"

primrec drain_pipe :: "env \<Rightarrow> nat \<Rightarrow> int \<Rightarrow> ring \<Rightarrow> log \<Rightarrow> (ring \<times> log) run" where
  "drain_pipe env 0 fd ring log = Out_Of_Fuel"
| "drain_pipe env (Suc fuel) fd ring log =
     (case sys_read env fd 1024 log of
        (Ok bs, log1) \<Rightarrow>
          if bs \<noteq> [] then drain_pipe env fuel fd (snd (rb_write ring bs)) log1
          else Done (ring, log1)
      | (Err e, log1) \<Rightarrow> Done (ring, log1))"

text \<open>The locals of monitor_child and the fields of the result that it sets.\<close>

record monitor =
  mo_done :: bool
  mo_closed :: bool
  mo_exit :: i32
  mo_flags :: u32
  mo_ring :: ring
  mo_log :: log

definition mon_drain :: "env \<Rightarrow> int \<Rightarrow> monitor \<Rightarrow> monitor run" where
  "mon_drain env pipe_fd m =
     run_bind (drain_pipe env (e_fuel env) pipe_fd (mo_ring m) (mo_log m))
       (\<lambda>(ring, log). Done (m\<lparr>mo_ring := ring, mo_log := log\<rparr>))"

definition mon_close_pipe :: "env \<Rightarrow> int \<Rightarrow> int \<Rightarrow> monitor \<Rightarrow> monitor" where
  "mon_close_pipe env ep pipe_fd m =
     m\<lparr>mo_closed := True, mo_log := snd (reactor_remove env ep pipe_fd (mo_log m))\<rparr>"

definition exit_code_of :: "child_end \<Rightarrow> i32" where
  "exit_code_of ce = (case ce of Exited n \<Rightarrow> of_nat n | Signaled n \<Rightarrow> 128 + of_nat n)"

definition mon_timeout :: "int \<Rightarrow> int \<Rightarrow> monitor \<Rightarrow> monitor" where
  "mon_timeout child_pid pidfd m =
     m\<lparr>mo_flags := mo_flags m OR EXEC_RESP_TIMED_OUT, mo_log := kill_child child_pid pidfd (mo_log m)\<rparr>"

text \<open>waitid on the pidfd: the child is done when it is the one that was waited for.\<close>

definition mon_wait_child :: "env \<Rightarrow> int \<Rightarrow> int \<Rightarrow> int \<Rightarrow> monitor \<Rightarrow> monitor" where
  "mon_wait_child env ep child_pid pidfd m =
     (let m1 = m\<lparr>mo_log := mo_log m @ [EvProcess (Call_Wait_Pidfd pidfd)]\<rparr> in
      case e_wait_pidfd env (mo_log m) pidfd of
        Some (pid, ce) \<Rightarrow>
          if pid = child_pid
          then m1\<lparr>mo_done := True, mo_exit := exit_code_of ce,
                 mo_log := snd (reactor_remove env ep pidfd (mo_log m1))\<rparr>
          else m1
      | None \<Rightarrow> m1)"

definition mon_event ::
  "env \<Rightarrow> int \<Rightarrow> int \<Rightarrow> int \<Rightarrow> int \<Rightarrow> int \<times> u32 \<Rightarrow> monitor \<Rightarrow> monitor run" where
  "mon_event env ep child_pid pidfd pipe_fd ev m =
     (let (event_fd, event_flags) = ev in
      if event_fd = pipe_fd then
        run_bind (if event_flags AND EPOLLIN \<noteq> 0 then mon_drain env pipe_fd m else Done m)
          (\<lambda>m1. if event_flags AND (EPOLLHUP OR EPOLLERR) \<noteq> 0
                then run_bind (mon_drain env pipe_fd m1) (\<lambda>m2. Done (mon_close_pipe env ep pipe_fd m2))
                else Done m1)
      else if pidfd \<ge> 0 \<and> event_fd = pidfd then Done (mon_wait_child env ep child_pid pidfd m)
      else Done m)"

fun mon_events ::
  "env \<Rightarrow> int \<Rightarrow> int \<Rightarrow> int \<Rightarrow> int \<Rightarrow> (int \<times> u32) list \<Rightarrow> monitor \<Rightarrow> monitor run" where
  "mon_events env ep child_pid pidfd pipe_fd [] m = Done m"
| "mon_events env ep child_pid pidfd pipe_fd (ev # evs) m =
     run_bind (mon_event env ep child_pid pidfd pipe_fd ev m)
       (mon_events env ep child_pid pidfd pipe_fd evs)"

text \<open>Without a pidfd the child is polled for after the events.\<close>

definition mon_poll_child :: "env \<Rightarrow> int \<Rightarrow> int \<Rightarrow> monitor \<Rightarrow> monitor" where
  "mon_poll_child env child_pid pidfd m =
     (if \<not> mo_done m \<and> pidfd < 0 then
        (let m1 = m\<lparr>mo_log := mo_log m @ [EvProcess (Call_Waitpid child_pid True)]\<rparr> in
         case e_waitpid env (mo_log m) child_pid of
           Some (pid, ce) \<Rightarrow>
             if pid = child_pid then m1\<lparr>mo_done := True, mo_exit := exit_code_of ce\<rparr> else m1
         | None \<Rightarrow> m1)
      else m)"

text \<open>
  The milliseconds left: the unsigned timeout and the elapsed time are cast to int and subtracted,
  which is undefined when the difference does not fit.
\<close>

definition remaining_ms :: "u32 \<Rightarrow> int \<Rightarrow> int option" where
  "remaining_ms timeout_ms elapsed =
     (let d = sint timeout_ms - sint (word_of_int elapsed :: i32)
      in if - (2 ^ 31) \<le> d \<and> d < 2 ^ 31 then Some d else None)"

text \<open>
  One round of the loop: the clock, the kill when the time is over, the wait, the events, the poll
  for a child without a pidfd, and the last drain of the pipe once the child is done. The flag is
  False for the break when waiting fails.
\<close>

definition mon_finish :: "env \<Rightarrow> int \<Rightarrow> int \<Rightarrow> monitor \<Rightarrow> (bool \<times> monitor) run" where
  "mon_finish env ep pipe_fd m =
     (if mo_done m \<and> \<not> mo_closed m
      then run_bind (mon_drain env pipe_fd m) (\<lambda>m1. Done (True, mon_close_pipe env ep pipe_fd m1))
      else Done (True, m))"

definition mon_round ::
  "env \<Rightarrow> int \<Rightarrow> int \<Rightarrow> int \<Rightarrow> int \<Rightarrow> int \<Rightarrow> monitor \<Rightarrow> (bool \<times> monitor) run" where
  "mon_round env ep child_pid pidfd pipe_fd rem m =
     (case reactor_wait env ep 8 (max 10 rem) (mo_log m) of
        (Inl e, log) \<Rightarrow> Done (False, m\<lparr>mo_log := log\<rparr>)
      | (Inr evs, log) \<Rightarrow>
          run_bind (mon_events env ep child_pid pidfd pipe_fd evs
              (if evs = [] \<and> rem \<le> 10 then mon_timeout child_pid pidfd (m\<lparr>mo_log := log\<rparr>)
               else m\<lparr>mo_log := log\<rparr>))
            (\<lambda>m1. mon_finish env ep pipe_fd (mon_poll_child env child_pid pidfd m1)))"

definition mon_step ::
  "env \<Rightarrow> int \<Rightarrow> int \<Rightarrow> int \<Rightarrow> int \<Rightarrow> u32 \<Rightarrow> nat \<Rightarrow> monitor \<Rightarrow> (bool \<times> monitor) run" where
  "mon_step env ep child_pid pidfd pipe_fd timeout_ms start_time m =
     (let now = e_clock_ms env (mo_log m);
          m1 = m\<lparr>mo_log := mo_log m @ [EvClock]\<rparr>
      in run_bind (run_of (remaining_ms timeout_ms (int now - int start_time)))
        (\<lambda>rem. if rem \<le> 0
               then mon_round env ep child_pid pidfd pipe_fd 500 (mon_timeout child_pid pidfd m1)
               else mon_round env ep child_pid pidfd pipe_fd rem m1))"

primrec monitor_loop ::
  "env \<Rightarrow> nat \<Rightarrow> int \<Rightarrow> int \<Rightarrow> int \<Rightarrow> int \<Rightarrow> u32 \<Rightarrow> nat \<Rightarrow> monitor \<Rightarrow> monitor run" where
  "monitor_loop env 0 ep child_pid pidfd pipe_fd timeout_ms start_time m = Out_Of_Fuel"
| "monitor_loop env (Suc fuel) ep child_pid pidfd pipe_fd timeout_ms start_time m =
     (if mo_done m \<and> mo_closed m then Done m
      else run_bind (mon_step env ep child_pid pidfd pipe_fd timeout_ms start_time m)
        (\<lambda>(go, m'). if go
           then monitor_loop env fuel ep child_pid pidfd pipe_fd timeout_ms start_time m'
           else Done m'))"

text \<open>
  monitor_child: the pidfd, when there is one, and the pipe are registered with a reactor of its own,
  which is closed on every way out.
\<close>

definition monitor_register :: "env \<Rightarrow> int \<Rightarrow> int \<Rightarrow> int \<Rightarrow> log \<Rightarrow> unit result \<times> log" where
  "monitor_register env ep pidfd pipe_fd log =
     (case (if pidfd \<ge> 0 then reactor_add env ep pidfd EPOLLIN log else (Inr (), log)) of
        (Inl e, l1) \<Rightarrow> (Inl e, l1)
      | (Inr _, l1) \<Rightarrow> reactor_add env ep pipe_fd (EPOLLIN OR EPOLLHUP) l1)"

definition monitor_init :: "ring \<Rightarrow> log \<Rightarrow> monitor" where
  "monitor_init ring log =
     \<lparr>mo_done = False, mo_closed = False, mo_exit = - 1, mo_flags = 0, mo_ring = ring, mo_log = log\<rparr>"

definition monitor_child ::
  "env \<Rightarrow> int \<Rightarrow> int \<Rightarrow> int \<Rightarrow> u32 \<Rightarrow> ring \<Rightarrow> log \<Rightarrow> (unit result \<times> monitor) run" where
  "monitor_child env child_pid pidfd pipe_fd timeout_ms ring log =
     (case reactor_create env log of
        (Inl e, l1) \<Rightarrow> Done (Inl e, monitor_init ring l1)
      | (Inr ep, l1) \<Rightarrow>
          (case monitor_register env ep pidfd pipe_fd l1 of
             (Inl e, l2) \<Rightarrow> Done (Inl e, monitor_init ring (sys_close ep l2))
           | (Inr _, l2) \<Rightarrow>
               run_bind (monitor_loop env (e_fuel env) ep child_pid pidfd pipe_fd timeout_ms
                   (e_clock_ms env l2) (monitor_init ring (l2 @ [EvClock])))
                 (\<lambda>m. let l3 = (if \<not> mo_done m
                                then mo_log m @ [EvProcess (Call_Waitpid child_pid True)]
                                else mo_log m)
                      in Done (Inr (), m\<lparr>mo_log := sys_close ep l3\<rparr>))))"

section \<open>Running a command\<close>

text \<open>
  clone3 gives the child's pid and pidfd; where the kernel does not have it, fork and pidfd_open do.
  An error is a negative pid.
\<close>

definition spawn :: "env \<Rightarrow> log \<Rightarrow> int \<times> int \<times> log" where
  "spawn env log =
     (let l1 = log @ [EvProcess Call_Clone] in
      case e_clone env log of
        Ok (pid, pidfd) \<Rightarrow> (pid, pidfd, l1)
      | Err e \<Rightarrow>
          if e = ENOSYS then
            (let pid = e_fork env l1; l2 = l1 @ [EvProcess Call_Fork] in
             if pid > 0 then (pid, e_pidfd_open env l2 pid, l2 @ [EvProcess (Call_Pidfd_Open pid)])
             else (pid, - 1, l2))
          else (- 1, - 1, l1))"

definition set_nonblock :: "env \<Rightarrow> int \<Rightarrow> log \<Rightarrow> log" where
  "set_nonblock env fd log =
     (let l1 = log @ [EvFile (Call_Fcntl fd ''F_GETFL'')]
      in if e_fcntl env log fd then l1 @ [EvFile (Call_Fcntl fd ''F_SETFL'')] else l1)"

definition close_fds :: "int \<Rightarrow> int \<Rightarrow> log \<Rightarrow> log" where
  "close_fds pipe_fd pidfd log =
     (let l1 = sys_close pipe_fd log in if pidfd \<ge> 0 then sys_close pidfd l1 else l1)"

text \<open>
  The output, through the filter when that is asked for; the output buffer is a span of chars
  written through a span of bytes.
\<close>

definition collect_output :: "u32 \<Rightarrow> ring \<Rightarrow> state \<Rightarrow> byte arr \<Rightarrow> nat \<times> state \<times> byte arr" where
  "collect_output flags ring ansi output_dest =
     (if flags AND EXEC_FLAG_STRIP_ANSI \<noteq> 0 then
        (let (raw_len, raw) = rb_linearize ring (anew RING_BUFFER_CAPACITY 0)
         in ansi_filter ansi (apre raw raw_len) output_dest)
      else (let (n, out) = rb_linearize ring output_dest in (n, ansi, out)))"

definition collect_diff ::
  "u32 \<Rightarrow> dir_os \<Rightarrow> snapshot \<Rightarrow> string \<Rightarrow> char arr \<Rightarrow> nat \<times> char arr" where
  "collect_diff flags os pre watch_dir diff_dest =
     (if flags AND EXEC_FLAG_CAPTURE_DIFF \<noteq> 0 then
        (case capture os snapshot_init watch_dir of
           (Inr _, post) \<Rightarrow> compute_diff pre post diff_dest
         | (Inl _, _) \<Rightarrow> (0, diff_dest))
      else (0, diff_dest))"

text \<open>What run does once the child has been watched and the descriptors are closed.\<close>

definition process_finish ::
  "env \<Rightarrow> (log \<Rightarrow> dir_os) \<Rightarrow> exec_options \<Rightarrow> snapshot \<Rightarrow> string \<Rightarrow> u64 \<Rightarrow> monitor \<Rightarrow> state \<Rightarrow>
   byte arr \<Rightarrow> char arr \<Rightarrow> log \<Rightarrow> exec_result result \<times> runner \<times> byte arr \<times> char arr \<times> log" where
  "process_finish env dirs opts pre watch_dir start_cycles m ansi output_dest diff_dest log =
     (let end_cycles = e_cycles env log;
          log1 = log @ [EvCycles];
          flags = (if rb_is_truncated (mo_ring m) then mo_flags m OR EXEC_RESP_TRUNCATED
                   else mo_flags m);
          (output_len, ansi', out') = collect_output (xo_flags opts) (mo_ring m) ansi output_dest;
          (diff_len, diff') = collect_diff (xo_flags opts) (dirs log1) pre watch_dir diff_dest
      in (Inr \<lparr>er_exit_code = mo_exit m, er_flags = flags,
               er_cpu_cycles = (if end_cycles \<ge> start_cycles then end_cycles - start_cycles else 0),
               er_output_len = output_len, er_diff_len = diff_len\<rparr>,
          \<lparr>pr_ring = mo_ring m, pr_ansi = ansi'\<rparr>, out', diff', log1))"

text \<open>The parent's side of run: the result, the runner, the two destinations and the log.\<close>

definition process_run ::
  "env \<Rightarrow> (log \<Rightarrow> dir_os) \<Rightarrow> runner \<Rightarrow> exec_options \<Rightarrow> byte arr \<Rightarrow> char arr \<Rightarrow> log \<Rightarrow>
   (exec_result result \<times> runner \<times> byte arr \<times> char arr \<times> log) run" where
  "process_run env dirs r opts output_dest diff_dest log =
     (let ring = rb_clear (pr_ring r);
          ansi = ansi_reset (pr_ansi r);
          r0 = \<lparr>pr_ring = ring, pr_ansi = ansi\<rparr>;
          watch_dir = (if xo_working_dir opts = [] then ''/tmp'' else xo_working_dir opts);
          pre = (if xo_flags opts AND EXEC_FLAG_CAPTURE_DIFF \<noteq> 0
                 then snd (capture (dirs log) snapshot_init watch_dir) else snapshot_init);
          l1 = log @ [EvProcess Call_Pipe]
      in case e_pipe env log of
        None \<Rightarrow> Done (Inl ProcessSpawnError, r0, output_dest, diff_dest, l1)
      | Some (rfd, wfd) \<Rightarrow>
          (case spawn env (l1 @ [EvCycles]) of (pid, pidfd, l2) \<Rightarrow>
             if pid < 0
             then Done (Inl ProcessSpawnError, r0, output_dest, diff_dest,
                        sys_close wfd (sys_close rfd l2))
             else
               run_bind (monitor_child env pid pidfd rfd (xo_timeout_ms opts) ring
                           (set_nonblock env rfd (sys_close wfd l2)))
                (\<lambda>(res, m).
                   let l3 = close_fds rfd pidfd (mo_log m) in
                   case res of
                     Inl e \<Rightarrow> Done (Inl e, r0\<lparr>pr_ring := mo_ring m\<rparr>, output_dest, diff_dest, l3)
                   | Inr _ \<Rightarrow> Done (process_finish env dirs opts pre watch_dir (e_cycles env l1) m ansi
                                     output_dest diff_dest l3))))"

section \<open>What watching does\<close>

definition is_kill :: "event \<Rightarrow> bool" where
  "is_kill ev \<longleftrightarrow> (case ev of EvProcess c \<Rightarrow>
     (case c of Call_Kill _ _ \<Rightarrow> True | Call_Pidfd_Kill _ _ \<Rightarrow> True | _ \<Rightarrow> False) | _ \<Rightarrow> False)"

definition killed :: "log \<Rightarrow> bool" where
  "killed log \<longleftrightarrow> (\<exists>e \<in> set log. is_kill e)"

lemma killed_simps [log_simps]:
  "killed [] = False" "killed (e # l) = (is_kill e \<or> killed l)"
  "killed (l @ l') = (killed l \<or> killed l')"
  by (auto simp: killed_def)

text \<open>
  From one monitor to a later one: the ring has taken exactly the bytes received from the pipe, no
  descriptor was closed, and the timeout flag was set exactly when the child was killed.
\<close>

definition watched :: "int \<Rightarrow> monitor \<Rightarrow> monitor \<Rightarrow> bool" where
  "watched fd m m' \<longleftrightarrow> (\<exists>new. mo_log m' = mo_log m @ new \<and>
     mo_ring m' = foldl rb_push_byte (mo_ring m) (received fd new) \<and> closed new = [] \<and>
     mo_flags m' = (if killed new then mo_flags m OR EXEC_RESP_TIMED_OUT else mo_flags m))"

lemma watched_refl: "watched fd m m"
  by (auto simp: watched_def log_simps intro!: exI [of _ "[]"])

lemma watched_trans:
  assumes "watched fd a b" and "watched fd b c"
  shows "watched fd a c"
proof -
  from assms(1) obtain n1 where 1: "mo_log b = mo_log a @ n1"
    "mo_ring b = foldl rb_push_byte (mo_ring a) (received fd n1)" "closed n1 = []"
    "mo_flags b = (if killed n1 then mo_flags a OR EXEC_RESP_TIMED_OUT else mo_flags a)"
    unfolding watched_def by blast
  from assms(2) obtain n2 where 2: "mo_log c = mo_log b @ n2"
    "mo_ring c = foldl rb_push_byte (mo_ring b) (received fd n2)" "closed n2 = []"
    "mo_flags c = (if killed n2 then mo_flags b OR EXEC_RESP_TIMED_OUT else mo_flags b)"
    unfolding watched_def by blast
  from 1 2 show ?thesis
    unfolding watched_def by (intro exI [of _ "n1 @ n2"]) (simp add: log_simps or.assoc)
qed

lemma watched_events:
  assumes "mo_log m' = mo_log m @ new" "mo_ring m' = mo_ring m" "mo_flags m' = mo_flags m"
    "received fd new = []" "closed new = []" "\<not> killed new"
  shows "watched fd m m'"
  using assms by (auto simp: watched_def)

lemma drain_pipe_ring:
  "drain_pipe env fuel fd ring log = Done (ring', log') \<Longrightarrow>
   \<exists>new. log' = log @ new \<and> ring' = foldl rb_push_byte ring (received fd new) \<and>
     closed new = [] \<and> \<not> killed new"
proof (induction fuel arbitrary: ring log)
  case 0
  then show ?case by simp
next
  case (Suc fuel)
  show ?case
  proof (cases "e_read env log fd 1024")
    case (Ok bs)
    show ?thesis
    proof (cases "take 1024 bs = []")
      case True
      with Ok Suc.prems show ?thesis
        by (auto simp: sys_read_def log_simps is_kill_def intro!: exI [of _ "[EvRead fd []]"])
    next
      case False
      with Ok Suc.prems have "drain_pipe env fuel fd (snd (rb_write ring (take 1024 bs)))
          (log @ [EvRead fd (take 1024 bs)]) = Done (ring', log')"
        by (simp add: sys_read_def)
      from Suc.IH [OF this] obtain new where
        "log' = (log @ [EvRead fd (take 1024 bs)]) @ new"
        "ring' = foldl rb_push_byte (snd (rb_write ring (take 1024 bs))) (received fd new)"
        "closed new = []" "\<not> killed new" by blast
      then show ?thesis
        by (intro exI [of _ "EvRead fd (take 1024 bs) # new"])
          (simp add: log_simps is_kill_def rb_write_def)
    qed
  next
    case (Err e)
    with Suc.prems show ?thesis
      by (auto simp: sys_read_def log_simps is_kill_def intro!: exI [of _ "[EvRead fd []]"])
  qed
qed

lemma watched_drain: "mon_drain env fd m = Done m' \<Longrightarrow> watched fd m m'"
  unfolding mon_drain_def run_bind_Done
  by (auto simp: watched_def dest!: drain_pipe_ring)

lemma watched_close_pipe: "watched fd m (mon_close_pipe env ep fd m)"
  by (rule watched_events [where new = "[EvEpoll (Epoll_Del ep fd)]"])
    (simp_all add: mon_close_pipe_def reactor_remove_def reactor_ctl_def log_simps is_kill_def)

lemma watched_timeout: "watched fd m (mon_timeout pid pidfd m)"
  by (auto simp: watched_def mon_timeout_def kill_child_def log_simps is_kill_def)

lemma watched_wait_child: "watched fd m (mon_wait_child env ep pid pidfd m)"
proof -
  let ?m' = "mon_wait_child env ep pid pidfd m"
  have "\<exists>new. new \<in> {[EvProcess (Call_Wait_Pidfd pidfd)],
         [EvProcess (Call_Wait_Pidfd pidfd), EvEpoll (Epoll_Del ep pidfd)]} \<and>
      mo_log ?m' = mo_log m @ new \<and> mo_ring ?m' = mo_ring m \<and> mo_flags ?m' = mo_flags m"
    by (simp add: mon_wait_child_def Let_def reactor_remove_def reactor_ctl_def split: option.splits)
  then show ?thesis
    by (auto intro: watched_events simp: log_simps is_kill_def)
qed

lemma watched_event:
  assumes "mon_event env ep pid pidfd fd ev m = Done m'"
  shows "watched fd m m'"
proof (cases "fst ev = fd")
  case True
  obtain m1 where a: "(if snd ev AND EPOLLIN \<noteq> 0 then mon_drain env fd m else Done m) = Done m1"
    and b: "(if snd ev AND (EPOLLHUP OR EPOLLERR) \<noteq> 0
        then run_bind (mon_drain env fd m1) (\<lambda>m2. Done (mon_close_pipe env ep fd m2))
        else Done m1) = Done m'"
    using assms True by (cases ev) (auto simp: mon_event_def run_bind_Done)
  have "watched fd m m1"
    using a watched_drain watched_refl by (auto split: if_splits)
  moreover have "watched fd m1 m'"
    using b watched_drain watched_refl watched_close_pipe watched_trans
    by (auto simp: run_bind_Done split: if_splits) blast
  ultimately show ?thesis by (rule watched_trans)
next
  case False
  with assms have "m' = m \<or> m' = mon_wait_child env ep pid pidfd m"
    by (cases ev) (auto simp: mon_event_def split: if_splits)
  then show ?thesis using watched_refl watched_wait_child by blast
qed

lemma watched_mon_events:
  "mon_events env ep pid pidfd fd evs m = Done m' \<Longrightarrow> watched fd m m'"
proof (induction evs arbitrary: m)
  case Nil
  then show ?case by (simp add: watched_refl)
next
  case (Cons ev evs)
  then show ?case
    by (auto simp: run_bind_Done dest!: watched_event intro: watched_trans)
qed

lemma watched_poll_child: "watched fd m (mon_poll_child env pid pidfd m)"
proof -
  have "mon_poll_child env pid pidfd m = m \<or>
      (mo_log (mon_poll_child env pid pidfd m) = mo_log m @ [EvProcess (Call_Waitpid pid True)] \<and>
       mo_ring (mon_poll_child env pid pidfd m) = mo_ring m \<and>
       mo_flags (mon_poll_child env pid pidfd m) = mo_flags m)"
    by (auto simp: mon_poll_child_def Let_def split: option.splits)
  then show ?thesis
    by (auto intro: watched_refl watched_events simp: log_simps is_kill_def)
qed

lemma watched_finish: "mon_finish env ep fd m = Done (go, m') \<Longrightarrow> watched fd m m'"
  by (auto simp: mon_finish_def run_bind_Done watched_refl split: if_splits
      intro: watched_trans [OF watched_drain watched_close_pipe])

lemma watched_round:
  assumes "mon_round env ep pid pidfd fd rem m = Done (go, m')"
  shows "watched fd m m'"
proof -
  let ?w = "reactor_wait env ep 8 (max 10 rem) (mo_log m)"
  define m1 where "m1 = m\<lparr>mo_log := snd ?w\<rparr>"
  have w: "watched fd m m1"
    by (rule watched_events [where new = "[EvEpoll (Epoll_Wait ep (max 10 rem))]"])
      (simp_all add: m1_def reactor_wait_def log_simps is_kill_def)
  show ?thesis
  proof (cases "fst ?w")
    case (Inl e)
    with assms w show ?thesis by (cases ?w) (auto simp: mon_round_def m1_def)
  next
    case (Inr evs)
    let ?m2 = "if evs = [] \<and> rem \<le> 10 then mon_timeout pid pidfd m1 else m1"
    have w2: "watched fd m ?m2" using watched_trans [OF w watched_timeout] w by simp
    have W: "?w = (Inr evs, snd ?w)" using Inr by (simp add: prod_eq_iff)
    have "mon_round env ep pid pidfd fd rem m = run_bind (mon_events env ep pid pidfd fd evs ?m2)
        (\<lambda>m1. mon_finish env ep fd (mon_poll_child env pid pidfd m1))"
      unfolding mon_round_def by (subst W) (simp only: prod.case sum.case m1_def)
    with assms obtain m3 where e: "mon_events env ep pid pidfd fd evs ?m2 = Done m3"
      and f: "mon_finish env ep fd (mon_poll_child env pid pidfd m3) = Done (go, m')"
      by (auto simp: run_bind_Done)
    show ?thesis
      by (rule watched_trans [OF w2 watched_trans [OF watched_mon_events [OF e]
              watched_trans [OF watched_poll_child watched_finish [OF f]]]])
  qed
qed

lemma watched_step:
  assumes "mon_step env ep pid pidfd fd tmo start m = Done (go, m')"
  shows "watched fd m m'"
proof -
  let ?m1 = "m\<lparr>mo_log := mo_log m @ [EvClock]\<rparr>"
  have w: "watched fd m ?m1"
    by (rule watched_events [where new = "[EvClock]"]) (simp_all add: log_simps is_kill_def)
  from assms obtain rem where "mon_round env ep pid pidfd fd rem ?m1 = Done (go, m') \<or>
      mon_round env ep pid pidfd fd rem (mon_timeout pid pidfd ?m1) = Done (go, m')"
    by (auto simp: mon_step_def Let_def run_bind_Done split: if_splits)
  then show ?thesis
  proof
    assume "mon_round env ep pid pidfd fd rem ?m1 = Done (go, m')"
    from watched_round [OF this] show ?thesis by (rule watched_trans [OF w])
  next
    assume "mon_round env ep pid pidfd fd rem (mon_timeout pid pidfd ?m1) = Done (go, m')"
    from watched_round [OF this] show ?thesis
      by (rule watched_trans [OF watched_trans [OF w watched_timeout]])
  qed
qed

lemma watched_loop:
  "monitor_loop env fuel ep pid pidfd fd tmo start m = Done m' \<Longrightarrow> watched fd m m'"
proof (induction fuel arbitrary: m)
  case 0
  then show ?case by simp
next
  case (Suc fuel)
  then show ?case
    by (auto simp: run_bind_Done watched_refl split: if_splits
        dest!: watched_step intro: watched_trans)
qed

text \<open>
  What a whole run of the monitor adds to the log: the reactor, when it was made, is closed once,
  and nothing else is.
\<close>

lemma monitor_register_spec:
  "\<exists>new. snd (monitor_register env ep pidfd fd log) = log @ new \<and> received fd' new = [] \<and>
     closed new = [] \<and> \<not> killed new"
  by (auto simp: monitor_register_def reactor_add_def reactor_ctl_def log_simps is_kill_def)

lemma monitor_child_spec:
  assumes "monitor_child env pid pidfd fd tmo ring log = Done (res, m)"
  shows "\<exists>new. mo_log m = log @ new \<and> mo_ring m = foldl rb_push_byte ring (received fd new) \<and>
    closed new = (if e_epoll_create env log < 0 then [] else [e_epoll_create env log]) \<and>
    mo_flags m = (if killed new then EXEC_RESP_TIMED_OUT else 0)"
proof -
  let ?ep = "e_epoll_create env log" and ?l1 = "log @ [EvEpoll Epoll_Create]"
  show ?thesis
  proof (cases "?ep < 0")
    case True
    with assms have "m = monitor_init ring ?l1"
      by (simp add: monitor_child_def reactor_create_def)
    with True show ?thesis
      by (intro exI [of _ "[EvEpoll Epoll_Create]"])
        (simp add: monitor_init_def log_simps is_kill_def)
  next
    case ep: False
    let ?r = "monitor_register env ?ep pidfd fd ?l1"
    obtain a where a: "snd ?r = ?l1 @ a" "received fd a = []" "closed a = []" "\<not> killed a"
      using monitor_register_spec [of env ?ep pidfd fd ?l1 fd] by blast
    show ?thesis
    proof (cases "fst ?r")
      case (Inl e)
      with assms ep a(1) have "m = monitor_init ring (sys_close ?ep (?l1 @ a))"
        by (cases ?r) (simp add: monitor_child_def reactor_create_def)
      with ep a show ?thesis
        by (intro exI [of _ "EvEpoll Epoll_Create # a @ [EvClose ?ep]"])
          (simp add: monitor_init_def sys_close_def log_simps is_kill_def)
    next
      case (Inr u)
      with assms ep a(1) obtain m1 where
        loop: "monitor_loop env (e_fuel env) ?ep pid pidfd fd tmo (e_clock_ms env (?l1 @ a))
          (monitor_init ring ((?l1 @ a) @ [EvClock])) = Done m1"
        and mm: "m = m1\<lparr>mo_log := sys_close ?ep (if \<not> mo_done m1
            then mo_log m1 @ [EvProcess (Call_Waitpid pid True)] else mo_log m1)\<rparr>"
        by (cases ?r) (auto simp: monitor_child_def reactor_create_def run_bind_Done Let_def)
      obtain n where n: "mo_log m1 = ((?l1 @ a) @ [EvClock]) @ n"
        "mo_ring m1 = foldl rb_push_byte ring (received fd n)" "closed n = []"
        "mo_flags m1 = (if killed n then 0 OR EXEC_RESP_TIMED_OUT else 0)"
        using watched_loop [OF loop] unfolding watched_def by (auto simp: monitor_init_def)
      show ?thesis
        using n ep a
        by (intro exI [of _ "(EvEpoll Epoll_Create # a @ [EvClock]) @ n @
              (if \<not> mo_done m1 then [EvProcess (Call_Waitpid pid True)] else []) @ [EvClose ?ep]"])
          (simp add: mm sys_close_def log_simps is_kill_def)
    qed
  qed
qed

section \<open>Properties of a run\<close>

definition spawned :: "env \<Rightarrow> log \<Rightarrow> int \<times> int \<times> log" where
  "spawned env log = spawn env (log @ [EvProcess Call_Pipe, EvCycles])"

definition watch_log :: "env \<Rightarrow> log \<Rightarrow> int \<Rightarrow> int \<Rightarrow> log" where
  "watch_log env log rfd wfd = set_nonblock env rfd (sys_close wfd (snd (snd (spawned env log))))"

lemma spawn_log:
  "\<exists>new. snd (snd (spawn env log)) = log @ new \<and> received fd new = [] \<and> closed new = [] \<and> \<not> killed new"
  by (auto simp: spawn_def Let_def log_simps is_kill_def split: sysres.splits)

lemma watch_log_new:
  "\<exists>new. watch_log env log rfd wfd = log @ new \<and> received fd new = [] \<and> closed new = [wfd] \<and>
     \<not> killed new"
proof -
  obtain n where "snd (snd (spawned env log)) = (log @ [EvProcess Call_Pipe, EvCycles]) @ n"
    "received fd n = []" "closed n = []" "\<not> killed n"
    unfolding spawned_def using spawn_log by blast
  then show ?thesis
    by (auto simp: watch_log_def set_nonblock_def sys_close_def Let_def log_simps is_kill_def)
qed

text \<open>The three ways a run can go.\<close>

lemma process_run_cases:
  assumes "process_run env dirs r opts out diff log = Done (res, r', out', diff', log')"
  obtains
    (no_pipe) "e_pipe env log = None" "res = Inl ProcessSpawnError" "log' = log @ [EvProcess Call_Pipe]"
  | (no_child) rfd wfd where "e_pipe env log = Some (rfd, wfd)" "fst (spawned env log) < 0"
      "res = Inl ProcessSpawnError"
      "log' = sys_close wfd (sys_close rfd (snd (snd (spawned env log))))"
  | (watched) rfd wfd wres m where "e_pipe env log = Some (rfd, wfd)" "\<not> fst (spawned env log) < 0"
      "monitor_child env (fst (spawned env log)) (fst (snd (spawned env log))) rfd
         (xo_timeout_ms opts) (rb_clear (pr_ring r)) (watch_log env log rfd wfd) = Done (wres, m)"
      "case wres of
         Inl e \<Rightarrow> res = Inl e \<and> log' = close_fds rfd (fst (snd (spawned env log))) (mo_log m)
       | Inr _ \<Rightarrow> \<exists>pre watch_dir start_cycles.
           process_finish env dirs opts pre watch_dir start_cycles m Ground out diff
               (close_fds rfd (fst (snd (spawned env log))) (mo_log m))
           = (res, r', out', diff', log')"
proof -
  obtain pid pidfd l2 where sp: "spawned env log = (pid, pidfd, l2)" by (cases "spawned env log") auto
  then have sp': "spawn env ((log @ [EvProcess Call_Pipe]) @ [EvCycles]) = (pid, pidfd, l2)"
    by (simp add: spawned_def)
  show thesis
  proof (cases "e_pipe env log")
    case None
    with assms no_pipe show thesis by (simp add: process_run_def Let_def)
  next
    case (Some fds)
    obtain rfd wfd where f: "fds = (rfd, wfd)" by (cases fds)
    show thesis
    proof (cases "pid < 0")
      case True
      with assms Some f sp sp' no_child show thesis by (simp add: process_run_def Let_def)
    next
      case False
      with assms Some f sp' obtain wres m where
        m: "monitor_child env pid pidfd rfd (xo_timeout_ms opts) (rb_clear (pr_ring r))
              (watch_log env log rfd wfd) = Done (wres, m)"
        and k: "(let l3 = close_fds rfd pidfd (mo_log m) in
            case wres of Inl e \<Rightarrow> Done (Inl e, \<lparr>pr_ring = rb_clear (pr_ring r), pr_ansi = Ground\<rparr>\<lparr>pr_ring := mo_ring m\<rparr>,
                                   out, diff, l3)
            | Inr _ \<Rightarrow> Done (process_finish env dirs opts
                (if xo_flags opts AND EXEC_FLAG_CAPTURE_DIFF \<noteq> 0
                 then snd (capture (dirs log) snapshot_init
                   (if xo_working_dir opts = [] then ''/tmp'' else xo_working_dir opts))
                 else snapshot_init)
                (if xo_working_dir opts = [] then ''/tmp'' else xo_working_dir opts)
                (e_cycles env (log @ [EvProcess Call_Pipe])) m Ground out diff l3))
          = Done (res, r', out', diff', log')"
        by (auto simp: process_run_def Let_def run_bind_Done watch_log_def sp ansi_reset_def
            split: prod.splits)
      show thesis
      proof (rule watched [of rfd wfd wres m])
        show "case wres of
             Inl e \<Rightarrow> res = Inl e \<and> log' = close_fds rfd (fst (snd (spawned env log))) (mo_log m)
           | Inr _ \<Rightarrow> \<exists>pre watch_dir start_cycles.
               process_finish env dirs opts pre watch_dir start_cycles m Ground out diff
                   (close_fds rfd (fst (snd (spawned env log))) (mo_log m))
               = (res, r', out', diff', log')"
          using k by (cases wres) (auto simp: sp Let_def)
      qed (use m False Some f sp in simp_all)
    qed
  qed
qed

lemma collect_output_spec:
  assumes "rb_capacity ring = RING_BUFFER_CAPACITY" "rb_inv ring" "RING_BUFFER_CAPACITY \<le> alen out"
    "collect_output flags ring Ground out = (n, ansi', out')"
  shows "apre out' n = (if flags AND EXEC_FLAG_STRIP_ANSI \<noteq> 0 then ansi_text Ground (rb_contents ring)
    else rb_contents ring)"
proof (cases "flags AND EXEC_FLAG_STRIP_ANSI = 0")
  case True
  with assms have "(n, out') = rb_linearize ring out"
    by (auto simp: collect_output_def split: prod.splits)
  moreover have "length (rb_contents ring) \<le> alen out"
    using assms by (simp add: rb_inv_def RING_BUFFER_CAPACITY_def)
  ultimately show ?thesis
    using rb_linearize_pre [of ring out] True by (metis fst_conv snd_conv take_all)
next
  case False
  let ?lin = "rb_linearize ring (anew RING_BUFFER_CAPACITY 0)"
  have len: "length (rb_contents ring) \<le> RING_BUFFER_CAPACITY"
    using assms by (simp add: rb_inv_def)
  then have "apre (snd ?lin) (fst ?lin) = rb_contents ring"
    using rb_linearize_pre [of ring "anew RING_BUFFER_CAPACITY 0"] by simp
  with assms(4) False have f: "ansi_filter Ground (rb_contents ring) out = (n, ansi', out')"
    by (cases ?lin) (simp add: collect_output_def)
  have "length (ansi_text Ground (rb_contents ring)) \<le> alen out"
    using ansi_text_length [of Ground "rb_contents ring"] len assms(3) by linarith
  with ansi_filter_refines [of Ground "rb_contents ring" out] f False show ?thesis
    by (auto simp: min_def)
qed

text \<open>The bytes that went through the pipe, the descriptors that the run closed, and the result's flags.\<close>

definition runner_ok :: "runner \<Rightarrow> bool" where
  "runner_ok r \<longleftrightarrow> rb_capacity (pr_ring r) = RING_BUFFER_CAPACITY"

lemma runner_ok_init: "runner_ok runner_init"
  by (simp add: runner_ok_def runner_init_def)

lemma close_fds_spec:
  "\<exists>new. close_fds rfd pidfd log = log @ new \<and> received fd new = [] \<and> \<not> killed new \<and>
     closed new = rfd # (if pidfd \<ge> 0 then [pidfd] else [])"
  by (simp add: close_fds_def sys_close_def Let_def log_simps is_kill_def)

lemma process_finish_log:
  "process_finish env dirs opts pre watch_dir start m ansi out diff log = (res, r', out', diff', log')
   \<Longrightarrow> log' = log @ [EvCycles]"
  by (simp add: process_finish_def Let_def split_def)

lemma process_finish_spec:
  assumes "process_finish env dirs opts pre watch_dir start m Ground out diff log
      = (res, r', out', diff', log')"
    and "rb_capacity (mo_ring m) = RING_BUFFER_CAPACITY" "rb_inv (mo_ring m)"
    and "RING_BUFFER_CAPACITY \<le> alen out"
  shows "log' = log @ [EvCycles] \<and> runner_ok r' \<and>
    (\<exists>x. res = Inr x \<and> er_exit_code x = mo_exit m \<and>
      er_flags x = (if rb_is_truncated (mo_ring m) then mo_flags m OR EXEC_RESP_TRUNCATED
                    else mo_flags m) \<and>
      apre out' (er_output_len x) =
        (if xo_flags opts AND EXEC_FLAG_STRIP_ANSI \<noteq> 0
         then ansi_text Ground (rb_contents (mo_ring m)) else rb_contents (mo_ring m)))"
proof -
  obtain n a o' where c: "collect_output (xo_flags opts) (mo_ring m) Ground out = (n, a, o')"
    by (cases "collect_output (xo_flags opts) (mo_ring m) Ground out")
  from collect_output_spec [OF assms(2-4) c] assms(1,2) show ?thesis
    by (auto simp: process_finish_def c runner_ok_def Let_def split: prod.splits)
qed

lemma process_run_spec:
  assumes run: "process_run env dirs r opts out diff log = Done (Inr x, r', out', diff', log')"
    and ok: "runner_ok r" and room: "RING_BUFFER_CAPACITY \<le> alen out"
  obtains rfd wfd new and m :: monitor where "e_pipe env log = Some (rfd, wfd)" "log' = log @ new" "runner_ok r'"
    "mo_ring m = foldl rb_push_byte (rb_clear (pr_ring r)) (received rfd new)"
    "mo_flags m = (if killed new then EXEC_RESP_TIMED_OUT else 0)"
    "er_flags x = (if rb_is_truncated (mo_ring m) then mo_flags m OR EXEC_RESP_TRUNCATED
                   else mo_flags m)"
    "apre out' (er_output_len x) = (if xo_flags opts AND EXEC_FLAG_STRIP_ANSI \<noteq> 0
       then ansi_text Ground (rb_contents (mo_ring m)) else rb_contents (mo_ring m))"
  using run
proof (cases rule: process_run_cases)
  case (watched rfd wfd wres m)
  obtain pre watch_dir start where fin:
    "process_finish env dirs opts pre watch_dir start m Ground out diff
       (close_fds rfd (fst (snd (spawned env log))) (mo_log m)) = (Inr x, r', out', diff', log')"
    using watched(4) by (cases wres) auto
  obtain n1 where n1: "watch_log env log rfd wfd = log @ n1" "received rfd n1 = []" "\<not> killed n1"
    using watch_log_new by blast
  obtain n2 where n2: "mo_log m = (log @ n1) @ n2"
    "mo_ring m = foldl rb_push_byte (rb_clear (pr_ring r)) (received rfd n2)"
    "mo_flags m = (if killed n2 then EXEC_RESP_TIMED_OUT else 0)"
    using monitor_child_spec [OF watched(3)] n1(1) by auto
  have cap: "rb_capacity (mo_ring m) = RING_BUFFER_CAPACITY"
    using ok by (simp add: n2(2) rb.bound_foldl runner_ok_def)
  have inv: "rb_inv (mo_ring m)"
    using ok by (simp add: n2(2) rb.ok_foldl runner_ok_def RING_BUFFER_CAPACITY_def)
  obtain n3 where n3: "close_fds rfd (fst (snd (spawned env log))) (mo_log m) = mo_log m @ n3"
    "received rfd n3 = []" "\<not> killed n3"
    using close_fds_spec by blast
  note f = process_finish_spec [OF fin cap inv room]
  from f n3(1) n2(1) have "log' = log @ (n1 @ n2 @ n3 @ [EvCycles])" by simp
  moreover have "received rfd (n1 @ n2 @ n3 @ [EvCycles]) = received rfd n2"
    using n1 n3 by (simp add: log_simps)
  moreover have "killed (n1 @ n2 @ n3 @ [EvCycles]) \<longleftrightarrow> killed n2"
    using n1 n3 by (auto simp: log_simps is_kill_def)
  ultimately show thesis
    using that [OF watched(1), of "n1 @ n2 @ n3 @ [EvCycles]" m] n2 f by auto
qed auto

text \<open>
  C5. What run reports: when it succeeds, the output it left in the destination is the last 65536
  bytes that came through the pipe, with the terminal sequences stripped when that was asked for; the
  TIMED_OUT flag is set exactly when the child was killed, and TRUNCATED exactly when more came than
  was kept; and the runner is ready for the next command.
\<close>

theorem process_output:
  assumes "process_run env dirs r opts out diff log = Done (Inr x, r', out', diff', log')"
    and "runner_ok r" and "RING_BUFFER_CAPACITY \<le> alen out"
  shows "\<exists>rfd wfd new kept. e_pipe env log = Some (rfd, wfd) \<and> log' = log @ new \<and>
    kept = last_n 65536 (received rfd new) \<and>
    apre out' (er_output_len x) =
      (if xo_flags opts AND EXEC_FLAG_STRIP_ANSI \<noteq> 0 then ansi_text Ground kept else kept) \<and>
    (length (received rfd new) < 2 ^ 64 \<longrightarrow> er_flags x =
      (if killed new then EXEC_RESP_TIMED_OUT else 0) OR
      (if 65536 < length (received rfd new) then EXEC_RESP_TRUNCATED else 0)) \<and>
    runner_ok r'"
proof -
  from assms obtain rfd wfd new and m :: monitor where m: "e_pipe env log = Some (rfd, wfd)" "log' = log @ new"
    "runner_ok r'" "mo_ring m = foldl rb_push_byte (rb_clear (pr_ring r)) (received rfd new)"
    "mo_flags m = (if killed new then EXEC_RESP_TIMED_OUT else 0)"
    "er_flags x = (if rb_is_truncated (mo_ring m) then mo_flags m OR EXEC_RESP_TRUNCATED
                   else mo_flags m)"
    "apre out' (er_output_len x) = (if xo_flags opts AND EXEC_FLAG_STRIP_ANSI \<noteq> 0
       then ansi_text Ground (rb_contents (mo_ring m)) else rb_contents (mo_ring m))"
    by (rule process_run_spec)
  have cap: "rb_capacity (pr_ring r) = 65536"
    using assms(2) by (simp add: runner_ok_def RING_BUFFER_CAPACITY_def)
  then have c: "rb_contents (mo_ring m) = last_n 65536 (received rfd new)"
    by (simp add: m(4) rb.log_foldl)
  have t: "rb_is_truncated (mo_ring m) \<longleftrightarrow> 65536 < length (received rfd new)"
    if "length (received rfd new) < 2 ^ 64"
    using that cap of_nat_less_u64 [of "length (received rfd new)" 65536]
    by (simp add: m(4) rb_is_truncated_def rb_total_foldl rb.bound_foldl)
  from m c t show ?thesis by (intro exI conjI) auto
qed

lemma process_run_closed:
  assumes "process_run env dirs r opts out diff log = Done (res, r', out', diff', log')"
  shows "\<exists>new. log' = log @ new \<and> closed new =
    (case e_pipe env log of
       None \<Rightarrow> []
     | Some (rfd, wfd) \<Rightarrow>
         (let (pid, pidfd, l) = spawned env log; ep = e_epoll_create env (watch_log env log rfd wfd)
          in if pid < 0 then [rfd, wfd]
             else wfd # (if ep < 0 then [] else [ep]) @ rfd # (if pidfd \<ge> 0 then [pidfd] else [])))"
  using assms
proof (cases rule: process_run_cases)
  case no_pipe
  then show ?thesis by (simp add: log_simps)
next
  case (no_child rfd wfd)
  obtain n where "snd (snd (spawned env log)) = (log @ [EvProcess Call_Pipe, EvCycles]) @ n"
    "closed n = []"
    unfolding spawned_def using spawn_log by blast
  with no_child show ?thesis
    by (cases "spawned env log") (auto simp: sys_close_def log_simps)
next
  case (watched rfd wfd wres m)
  obtain n1 where n1: "watch_log env log rfd wfd = log @ n1" "closed n1 = [wfd]"
    using watch_log_new by blast
  obtain n2 where n2: "mo_log m = (log @ n1) @ n2"
    "closed n2 = (if e_epoll_create env (log @ n1) < 0 then [] else [e_epoll_create env (log @ n1)])"
    using monitor_child_spec [OF watched(3)] n1(1) by auto
  let ?fin = "close_fds rfd (fst (snd (spawned env log))) (mo_log m)"
  have "log' = ?fin \<or> log' = ?fin @ [EvCycles]"
    using watched(4) by (cases wres) (auto dest: process_finish_log)
  then show ?thesis
  proof
    assume "log' = ?fin"
    with n1 n2 watched show ?thesis
      by (cases "spawned env log") (auto simp: close_fds_def sys_close_def log_simps)
  next
    assume "log' = ?fin @ [EvCycles]"
    with n1 n2 watched show ?thesis
      by (cases "spawned env log") (auto simp: close_fds_def sys_close_def log_simps)
  qed
qed


section \<open>A run ends\<close>

text \<open>
  The loops of the monitor are ended by the kernel. \<open>serves\<close> says what it does for a child that
  ends: descriptors can be watched, clocks stay below $2^{30}$ milliseconds, after \<open>n\<close> reads the pipe
  is dry, and after \<open>n\<close> waits every wait reports the pidfd and waiting for it gives the child with its
  end \<open>ce\<close>.
\<close>

definition reads :: "int \<Rightarrow> log \<Rightarrow> nat" where
  "reads fd log = length (filter (\<lambda>e. case e of EvRead fd' _ \<Rightarrow> fd' = fd | _ \<Rightarrow> False) log)"

definition waits :: "log \<Rightarrow> nat" where
  "waits log = length (filter (\<lambda>e. case e of EvEpoll (Epoll_Wait _ _) \<Rightarrow> True | _ \<Rightarrow> False) log)"

lemma reads_waits_simps [simp]:
  "reads fd (l @ l') = reads fd l + reads fd l'" "waits (l @ l') = waits l + waits l'"
  "reads fd (EvRead fd bs # l) = Suc (reads fd l)"
  "waits (EvEpoll (Epoll_Wait ep t) # l) = Suc (waits l)"
  "waits [] = 0" "waits (EvClock # l) = waits l" "waits (EvProcess c # l) = waits l"
  by (simp_all add: reads_def waits_def)

definition serves :: "env \<Rightarrow> int \<Rightarrow> int \<Rightarrow> int \<Rightarrow> nat \<Rightarrow> child_end \<Rightarrow> bool" where
  "serves env pid pidfd fd n ce \<longleftrightarrow>
     (\<forall>log. e_clock_ms env log < 2 ^ 30) \<and> (\<forall>log. e_epoll_create env log \<ge> 0) \<and>
     (\<forall>log ep f. e_epoll_ctl env log ep f) \<and> (\<forall>log t. e_epoll_wait env log t \<noteq> None) \<and>
     (\<forall>log bs. n \<le> reads fd log \<longrightarrow> e_read env log fd 1024 = Ok bs \<longrightarrow> bs = []) \<and>
     (\<forall>log t evs. n \<le> waits log \<longrightarrow> e_epoll_wait env log t = Some evs \<longrightarrow>
        pidfd \<in> fst ` set (take 8 evs)) \<and>
     (\<forall>log. n < waits log \<longrightarrow> e_wait_pidfd env log pidfd = Some (pid, ce)) \<and>
     (\<forall>log ce'. e_wait_pidfd env log pidfd = Some (pid, ce') \<longrightarrow> ce' = ce)"

text \<open>One monitor is no further than another: no fewer waits, the child stays done with its code.\<close>

definition ahead :: "child_end \<Rightarrow> monitor \<Rightarrow> monitor \<Rightarrow> bool" where
  "ahead ce m m' \<longleftrightarrow> waits (mo_log m) \<le> waits (mo_log m') \<and> (mo_done m \<longrightarrow> mo_done m') \<and>
     ((mo_done m \<longrightarrow> mo_exit m = exit_code_of ce) \<longrightarrow> mo_done m' \<longrightarrow> mo_exit m' = exit_code_of ce)"

lemma ahead_refl [simp]: "ahead ce m m"
  by (simp add: ahead_def)

lemma ahead_trans: "ahead ce a b \<Longrightarrow> ahead ce b c \<Longrightarrow> ahead ce a c"
  by (auto simp: ahead_def)

lemma drain_pipe_returns:
  assumes "serves env pid pidfd fd n ce"
  shows "n - reads fd log < fuel \<Longrightarrow>
    \<exists>ring' new. drain_pipe env fuel fd ring log = Done (ring', log @ new)"
proof (induction fuel arbitrary: ring log)
  case 0
  then show ?case by simp
next
  case (Suc fuel)
  show ?case
  proof (cases "e_read env log fd 1024")
    case (Ok bs)
    show ?thesis
    proof (cases "bs = []")
      case True
      with Ok show ?thesis by (simp add: sys_read_def)
    next
      case False
      with assms Ok have "\<not> n \<le> reads fd log" by (auto simp: serves_def)
      with Suc.prems have "n - reads fd (log @ [EvRead fd (take 1024 bs)]) < fuel" by simp
      from Suc.IH [OF this, of "snd (rb_write ring (take 1024 bs))"] obtain ring' new where
        "drain_pipe env fuel fd (snd (rb_write ring (take 1024 bs))) (log @ [EvRead fd (take 1024 bs)])
          = Done (ring', log @ EvRead fd (take 1024 bs) # new)" by auto
      with False Ok show ?thesis by (auto simp: sys_read_def)
    qed
  next
    case (Err e)
    then show ?thesis by (simp add: sys_read_def)
  qed
qed

lemma mon_drain_returns:
  assumes "serves env pid pidfd fd n ce" "n < e_fuel env"
  shows "\<exists>m'. mon_drain env fd m = Done m' \<and> ahead ce m m'"
proof -
  have "n - reads fd (mo_log m) < e_fuel env" using assms(2) by simp
  from drain_pipe_returns [OF assms(1) this, of "mo_ring m"] obtain ring' new where
    "drain_pipe env (e_fuel env) fd (mo_ring m) (mo_log m) = Done (ring', mo_log m @ new)" by blast
  then show ?thesis by (simp add: mon_drain_def ahead_def)
qed

lemma mon_close_pipe_ahead [simp]: "ahead ce m (mon_close_pipe env ep fd m)"
  by (simp add: ahead_def mon_close_pipe_def reactor_remove_def reactor_ctl_def)

lemma mon_timeout_ahead [simp]: "ahead ce m (mon_timeout pid pidfd m)"
  by (simp add: ahead_def mon_timeout_def kill_child_def)

lemma mon_wait_child_ahead:
  assumes "serves env pid pidfd fd n ce"
  shows "ahead ce m (mon_wait_child env ep pid pidfd m)"
    and "n < waits (mo_log m) \<Longrightarrow> mo_done (mon_wait_child env ep pid pidfd m)"
  using assms
  by (auto simp: ahead_def mon_wait_child_def serves_def reactor_remove_def reactor_ctl_def Let_def
      split: option.split)

lemma mon_event_returns:
  assumes "serves env pid pidfd fd n ce" "n < e_fuel env" "0 \<le> pidfd" "pidfd \<noteq> fd"
  shows "\<exists>m'. mon_event env ep pid pidfd fd ev m = Done m' \<and> ahead ce m m' \<and>
    (fst ev = pidfd \<longrightarrow> n < waits (mo_log m) \<longrightarrow> mo_done m')"
proof (cases "fst ev = fd")
  case True
  obtain m1 where m1: "(if snd ev AND EPOLLIN \<noteq> 0 then mon_drain env fd m else Done m) = Done m1"
    "ahead ce m m1"
    using mon_drain_returns [OF assms(1,2), of m] by (cases "snd ev AND EPOLLIN = 0") auto
  obtain m2 where m2: "mon_drain env fd m1 = Done m2" "ahead ce m1 m2"
    using mon_drain_returns [OF assms(1,2)] by blast
  have "mon_event env ep pid pidfd fd ev m = Done
      (if snd ev AND (EPOLLHUP OR EPOLLERR) \<noteq> 0 then mon_close_pipe env ep fd m2 else m1)"
    using True m1(1) m2(1) by (cases ev) (simp add: mon_event_def)
  moreover have "ahead ce m (mon_close_pipe env ep fd m2)"
    by (rule ahead_trans [OF m1(2) ahead_trans [OF m2(2) mon_close_pipe_ahead]])
  ultimately show ?thesis using m1(2) True assms(4) by auto
next
  case False
  then have "mon_event env ep pid pidfd fd ev m =
      Done (if fst ev = pidfd then mon_wait_child env ep pid pidfd m else m)"
    using assms(3) by (cases ev) (simp add: mon_event_def)
  with mon_wait_child_ahead [OF assms(1)] show ?thesis by auto
qed

lemma mon_events_returns:
  assumes "serves env pid pidfd fd n ce" "n < e_fuel env" "0 \<le> pidfd" "pidfd \<noteq> fd"
  shows "\<exists>m'. mon_events env ep pid pidfd fd evs m = Done m' \<and> ahead ce m m' \<and>
    (pidfd \<in> fst ` set evs \<longrightarrow> n < waits (mo_log m) \<longrightarrow> mo_done m')"
proof (induction evs arbitrary: m)
  case Nil
  show ?case by simp
next
  case (Cons ev evs)
  obtain m1 where m1: "mon_event env ep pid pidfd fd ev m = Done m1" "ahead ce m m1"
    "fst ev = pidfd \<longrightarrow> n < waits (mo_log m) \<longrightarrow> mo_done m1"
    using mon_event_returns [OF assms] by blast
  obtain m2 where m2: "mon_events env ep pid pidfd fd evs m1 = Done m2" "ahead ce m1 m2"
    "pidfd \<in> fst ` set evs \<longrightarrow> n < waits (mo_log m1) \<longrightarrow> mo_done m2"
    using Cons.IH by blast
  from m1 m2 show ?case using ahead_trans [OF m1(2) m2(2)]
    by (auto simp: ahead_def)
qed

lemma mon_poll_child_pidfd [simp]: "0 \<le> pidfd \<Longrightarrow> mon_poll_child env pid pidfd m = m"
  by (simp add: mon_poll_child_def)

lemma mon_finish_returns:
  assumes "serves env pid pidfd fd n ce" "n < e_fuel env"
  shows "\<exists>m'. mon_finish env ep fd m = Done (True, m') \<and> ahead ce m m' \<and>
    (mo_done m \<longrightarrow> mo_done m' \<and> mo_closed m')"
proof (cases "mo_done m \<and> \<not> mo_closed m")
  case False
  then show ?thesis by (auto simp: mon_finish_def)
next
  case True
  obtain m1 where m1: "mon_drain env fd m = Done m1" "ahead ce m m1"
    using mon_drain_returns [OF assms] by blast
  then have "mo_done (mon_close_pipe env ep fd m1)" "mo_closed (mon_close_pipe env ep fd m1)"
    using True by (simp_all add: ahead_def mon_close_pipe_def)
  with m1 True show ?thesis
    using ahead_trans [OF m1(2) mon_close_pipe_ahead, of env ep fd] by (auto simp: mon_finish_def)
qed

lemma mon_round_returns:
  assumes "serves env pid pidfd fd n ce" "n < e_fuel env" "0 \<le> pidfd" "pidfd \<noteq> fd"
  shows "\<exists>m'. mon_round env ep pid pidfd fd rem m = Done (True, m') \<and> ahead ce m m' \<and>
    waits (mo_log m) < waits (mo_log m') \<and>
    (n \<le> waits (mo_log m) \<longrightarrow> mo_done m' \<and> mo_closed m')"
proof -
  let ?l = "mo_log m @ [EvEpoll (Epoll_Wait ep (max 10 rem))]"
  obtain evs where evs: "e_epoll_wait env (mo_log m) (max 10 rem) = Some evs"
    using assms(1) unfolding serves_def by (metis option.exhaust)
  define m1 where "m1 = (if take 8 evs = [] \<and> rem \<le> 10 then mon_timeout pid pidfd (m\<lparr>mo_log := ?l\<rparr>)
    else m\<lparr>mo_log := ?l\<rparr>)"
  have a1: "ahead ce m m1" "waits (mo_log m) < waits (mo_log m1)"
    by (auto simp: m1_def ahead_def mon_timeout_def kill_child_def)
  obtain m2 where m2: "mon_events env ep pid pidfd fd (take 8 evs) m1 = Done m2" "ahead ce m1 m2"
    "pidfd \<in> fst ` set (take 8 evs) \<longrightarrow> n < waits (mo_log m1) \<longrightarrow> mo_done m2"
    using mon_events_returns [OF assms] by blast
  obtain m3 where m3: "mon_finish env ep fd m2 = Done (True, m3)" "ahead ce m2 m3"
    "mo_done m2 \<longrightarrow> mo_done m3 \<and> mo_closed m3"
    using mon_finish_returns [OF assms(1,2)] by blast
  have "mon_round env ep pid pidfd fd rem m = run_bind (mon_events env ep pid pidfd fd (take 8 evs) m1)
      (\<lambda>m. mon_finish env ep fd (mon_poll_child env pid pidfd m))"
    by (simp add: mon_round_def reactor_wait_def evs m1_def)
  then have "mon_round env ep pid pidfd fd rem m = Done (True, m3)"
    using m2(1) m3(1) assms(3) by simp
  moreover have "ahead ce m m3"
    by (rule ahead_trans [OF a1(1) ahead_trans [OF m2(2) m3(2)]])
  moreover have "waits (mo_log m) < waits (mo_log m3)"
    using a1(2) m2(2) m3(2) by (simp add: ahead_def)
  moreover have "mo_done m3 \<and> mo_closed m3" if "n \<le> waits (mo_log m)"
  proof -
    have "pidfd \<in> fst ` set (take 8 evs)" using assms(1) that evs unfolding serves_def by blast
    moreover have "n < waits (mo_log m1)" using that a1(2) by simp
    ultimately show ?thesis using m2(3) m3(3) by blast
  qed
  ultimately show ?thesis by blast
qed

lemma remaining_ms_defined:
  assumes "unat timeout_ms < 2 ^ 30" "a < 2 ^ 30" "b < 2 ^ 30"
  shows "remaining_ms timeout_ms (int a - int b) = Some (int (unat timeout_ms) - (int a - int b))"
proof -
  have u: "int (unat timeout_ms) = uint timeout_ms" by simp
  from assms(1) have "int (unat timeout_ms) < 2 ^ 30" by (metis of_nat_less_iff of_nat_numeral of_nat_power)
  then have "uint timeout_ms < 2 ^ 30" by (simp only: u)
  then have t: "sint timeout_ms = int (unat timeout_ms)"
    by (simp only: u sint_uint)
      (rule signed_take_bit_int_eq_self, rule order_trans [OF _ uint_ge_0], simp_all)
  have e: "sint (word_of_int (int a - int b) :: i32) = int a - int b"
    by (simp only: sint_sbintrunc') (rule signed_take_bit_int_eq_self; use assms(2,3) in simp)
  have "- (2 ^ 31) \<le> int t - (int a - int b) \<and> int t - (int a - int b) < 2 ^ 31"
    if "t < 2 ^ 30" for t using that assms(2,3) by simp
  note this [OF assms(1)]
  then show ?thesis by (simp only: remaining_ms_def t e Let_def conj_absorb if_True)
qed

lemma mon_step_returns:
  assumes "serves env pid pidfd fd n ce" "n < e_fuel env" "0 \<le> pidfd" "pidfd \<noteq> fd"
    and "unat timeout_ms < 2 ^ 30" "start < 2 ^ 30"
  shows "\<exists>m'. mon_step env ep pid pidfd fd timeout_ms start m = Done (True, m') \<and> ahead ce m m' \<and>
    waits (mo_log m) < waits (mo_log m') \<and>
    (n \<le> waits (mo_log m) \<longrightarrow> mo_done m' \<and> mo_closed m')"
proof -
  let ?m1 = "m\<lparr>mo_log := mo_log m @ [EvClock]\<rparr>"
  have "e_clock_ms env (mo_log m) < 2 ^ 30" using assms(1) by (simp add: serves_def)
  note rem = remaining_ms_defined [OF assms(5) this assms(6)]
  let ?r = "int (unat timeout_ms) - (int (e_clock_ms env (mo_log m)) - int start)"
  obtain m2 rem' where m2: "mon_step env ep pid pidfd fd timeout_ms start m =
      mon_round env ep pid pidfd fd rem' m2" "m2 = ?m1 \<or> m2 = mon_timeout pid pidfd ?m1"
  proof (cases "?r \<le> 0")
    case True
    then show thesis by (intro that [of 500 "mon_timeout pid pidfd ?m1"]) (simp_all add: mon_step_def rem)
  next
    case False
    then show thesis by (intro that [of ?r ?m1]) (simp_all add: mon_step_def rem)
  qed
  have a: "ahead ce m m2" "waits (mo_log m2) = waits (mo_log m)"
    using m2(2) by (auto simp: ahead_def mon_timeout_def kill_child_def)
  obtain m3 where "mon_round env ep pid pidfd fd rem' m2 = Done (True, m3)" "ahead ce m2 m3"
    "waits (mo_log m2) < waits (mo_log m3)" "n \<le> waits (mo_log m2) \<longrightarrow> mo_done m3 \<and> mo_closed m3"
    using mon_round_returns [OF assms(1-4)] by blast
  with a m2(1) show ?thesis using ahead_trans [OF a(1)] by auto
qed

lemma monitor_loop_returns:
  assumes "serves env pid pidfd fd n ce" "n < e_fuel env" "0 \<le> pidfd" "pidfd \<noteq> fd"
    and "unat timeout_ms < 2 ^ 30" "start < 2 ^ 30"
  shows "(if mo_done m \<and> mo_closed m then 0 else n - waits (mo_log m) + 1) < fuel \<Longrightarrow>
    \<exists>m'. monitor_loop env fuel ep pid pidfd fd timeout_ms start m = Done m' \<and> ahead ce m m' \<and>
      mo_done m'"
proof (induction fuel arbitrary: m)
  case 0
  then show ?case by simp
next
  case (Suc fuel)
  show ?case
  proof (cases "mo_done m \<and> mo_closed m")
    case True
    then show ?thesis by simp
  next
    case False
    obtain m1 where m1: "mon_step env ep pid pidfd fd timeout_ms start m = Done (True, m1)"
      "ahead ce m m1" "waits (mo_log m) < waits (mo_log m1)"
      "n \<le> waits (mo_log m) \<longrightarrow> mo_done m1 \<and> mo_closed m1"
      using mon_step_returns [OF assms] by blast
    have "(if mo_done m1 \<and> mo_closed m1 then 0 else n - waits (mo_log m1) + 1) < fuel"
      using Suc.prems False m1(3,4) by (auto split: if_splits)
    from Suc.IH [OF this] obtain m' where
      "monitor_loop env fuel ep pid pidfd fd timeout_ms start m1 = Done m'" "ahead ce m1 m'" "mo_done m'"
      by blast
    with False m1 show ?thesis using ahead_trans [OF m1(2)] by auto
  qed
qed

lemma monitor_child_returns:
  assumes "serves env pid pidfd fd n ce" "n + 1 < e_fuel env" "0 \<le> pidfd" "pidfd \<noteq> fd"
    and "unat timeout_ms < 2 ^ 30"
  shows "\<exists>m. monitor_child env pid pidfd fd timeout_ms ring log = Done (Inr (), m) \<and>
    mo_exit m = exit_code_of ce"
proof -
  define ep where "ep = e_epoll_create env log"
  obtain l2 where reg: "monitor_register env ep pidfd fd (log @ [EvEpoll Epoll_Create]) = (Inr (), l2)"
    using assms(1,3) by (simp add: monitor_register_def reactor_add_def reactor_ctl_def serves_def)
  define m0 where "m0 = monitor_init ring (l2 @ [EvClock])"
  have ep: "\<not> ep < 0" and clock: "e_clock_ms env l2 < 2 ^ 30"
    using assms(1) by (auto simp: serves_def not_less ep_def)
  have "n < e_fuel env" using assms(2) by simp
  note loop = monitor_loop_returns [OF assms(1) this assms(3-5) clock]
  have "(if mo_done m0 \<and> mo_closed m0 then 0 else n - waits (mo_log m0) + 1) < e_fuel env"
    using assms(2) by auto
  from loop [OF this] obtain m where m: "monitor_loop env (e_fuel env) ep pid pidfd fd timeout_ms
      (e_clock_ms env l2) m0 = Done m" "ahead ce m0 m" "mo_done m" by blast
  from m(2,3) have "mo_exit m = exit_code_of ce" by (simp add: ahead_def m0_def monitor_init_def)
  moreover have "monitor_child env pid pidfd fd timeout_ms ring log =
      Done (Inr (), m\<lparr>mo_log := sys_close ep (mo_log m)\<rparr>)"
    using ep m(1,3) by (simp add: monitor_child_def reactor_create_def reg m0_def flip: ep_def)
  ultimately show ?thesis by auto
qed

lemma process_run_returns:
  assumes "e_pipe env log = Some (rfd, wfd)"
    and "spawned env log = (pid, pidfd, log1)" and "0 < pid" and "0 \<le> pidfd" and "pidfd \<noteq> rfd"
    and "serves env pid pidfd rfd n ce" and "n + 1 < e_fuel env"
    and "unat (xo_timeout_ms opts) < 2 ^ 30"
  shows "\<exists>x r' out' diff' log'.
    process_run env dirs r opts out diff log = Done (Inr x, r', out', diff', log') \<and>
    er_exit_code x = exit_code_of ce"
proof -
  obtain m where m: "monitor_child env pid pidfd rfd (xo_timeout_ms opts) (rb_clear (pr_ring r))
      (watch_log env log rfd wfd) = Done (Inr (), m)" "mo_exit m = exit_code_of ce"
    using monitor_child_returns [OF assms(6,7,4,5,8)] by blast
  have "spawn env (log @ [EvProcess Call_Pipe, EvCycles]) = (pid, pidfd, log1)"
    using assms(2) by (simp add: spawned_def)
  moreover have "watch_log env log rfd wfd = set_nonblock env rfd (sys_close wfd log1)"
    using assms(2) by (simp add: watch_log_def)
  ultimately have "\<exists>pre watch_dir start. process_run env dirs r opts out diff log =
      Done (process_finish env dirs opts pre watch_dir start m Ground out diff
        (close_fds rfd pidfd (mo_log m)))"
    using assms(1,3) m(1) unfolding process_run_def ansi_reset_def Let_def
    by (simp, blast)
  then obtain pre watch_dir start where "process_run env dirs r opts out diff log =
      Done (process_finish env dirs opts pre watch_dir start m Ground out diff
        (close_fds rfd pidfd (mo_log m)))" by blast
  then show ?thesis
    using m(2) by (simp add: process_finish_def Let_def split_def)
qed

text \<open>
  A kernel in which a command prints a byte and exits with status 3: the pipe is 5 and 6, the child
  has the pidfd 7, the reactor is 8.
\<close>

definition echo_env :: env where
  "echo_env = dead_env\<lparr>e_fuel := 10, e_pipe := (\<lambda>_. Some (5, 6)), e_clone := (\<lambda>_. Ok (42, 7)),
     e_epoll_create := (\<lambda>_. 8), e_epoll_ctl := (\<lambda>_ _ _. True),
     e_epoll_wait := (\<lambda>_ _. Some [(7, EPOLLIN)]), e_wait_pidfd := (\<lambda>_ _. Some (42, Exited 3)),
     e_read := (\<lambda>log fd n. if reads fd log = 0 then Ok [65] else Err EAGAIN)\<rparr>"

definition no_dirs :: "log \<Rightarrow> dir_os" where
  "no_dirs = (\<lambda>_. \<lparr>os_open_dir = (\<lambda>_. False), os_getdents = (\<lambda>_. []),
     os_fstatat = (\<lambda>_ _. None)\<rparr>)"

definition echo_opts :: exec_options where
  "echo_opts = \<lparr>xo_command = ''echo'', xo_working_dir = [], xo_timeout_ms = 5000,
     xo_flags = EXEC_FLAG_STRIP_ANSI\<rparr>"

lemma echo_serves: "serves echo_env 42 7 5 1 (Exited 3)"
  by (simp add: serves_def echo_env_def dead_env_def)

lemma echo_spawned: "spawned echo_env [] = (42, 7, [EvProcess Call_Pipe, EvCycles, EvProcess Call_Clone])"
  by (simp add: spawned_def spawn_def echo_env_def dead_env_def)

lemma echo_env_simps [simp]: "e_pipe echo_env log = Some (5, 6)" "e_fuel echo_env = 10"
  by (simp_all add: echo_env_def dead_env_def)

lemma echo_timeout: "unat (xo_timeout_ms echo_opts) < 2 ^ 30"
  by (simp add: echo_opts_def)

text \<open>
  C14. A run ends and reports how the command ended: when the pipe and the child can be made and the
  kernel serves them, run succeeds whatever the command writes, and the exit code is the status of a
  child that exited, or 128 more than the signal that ended it.
\<close>

theorem process_returns:
  assumes "e_pipe env log = Some (rfd, wfd)"
    and "spawned env log = (pid, pidfd, log1)" and "0 < pid" and "0 \<le> pidfd" and "pidfd \<noteq> rfd"
    and "serves env pid pidfd rfd n ce" and "n + 1 < e_fuel env"
    and "unat (xo_timeout_ms opts) < 2 ^ 30"
  shows "\<exists>x r' out' diff' log'.
    process_run env dirs r opts out diff log = Done (Inr x, r', out', diff', log') \<and>
    er_exit_code x = (case ce of Exited s \<Rightarrow> of_nat s | Signaled s \<Rightarrow> 128 + of_nat s)"
  using process_run_returns [OF assms] by (simp add: exit_code_of_def)

theorem process_returns_witness:
  "\<exists>x r' out' diff' log'. process_run echo_env no_dirs runner_init echo_opts (anew 65536 0)
      (anew 64 CHR ''x'') [] = Done (Inr x, r', out', diff', log') \<and>
    er_exit_code x = (case Exited 3 of Exited s \<Rightarrow> of_nat s | Signaled s \<Rightarrow> 128 + of_nat s)"
  by (rule process_returns [OF _ echo_spawned _ _ _ echo_serves _ echo_timeout]) simp_all

lemma echo_run:
  obtains x r' out' diff' log' where "process_run echo_env no_dirs runner_init echo_opts
    (anew 65536 0) (anew 64 CHR ''x'') [] = Done (Inr x, r', out', diff', log')"
  using process_run_returns [OF _ echo_spawned _ _ _ echo_serves _ echo_timeout] by fastforce

theorem process_output_witness:
  "\<exists>x r' out' diff' log' rfd wfd new kept.
    process_run echo_env no_dirs runner_init echo_opts (anew 65536 0) (anew 64 CHR ''x'') []
      = Done (Inr x, r', out', diff', log') \<and>
    e_pipe echo_env [] = Some (rfd, wfd) \<and> log' = [] @ new \<and>
    kept = last_n 65536 (received rfd new) \<and>
    apre out' (er_output_len x) = ansi_text Ground kept"
proof -
  obtain x r' out' diff' log' where run: "process_run echo_env no_dirs runner_init echo_opts
    (anew 65536 0) (anew 64 CHR ''x'') [] = Done (Inr x, r', out', diff', log')"
    by (rule echo_run)
  have "RING_BUFFER_CAPACITY \<le> alen (anew 65536 (0 :: byte))" by (simp add: RING_BUFFER_CAPACITY_def)
  from process_output [OF run runner_ok_init this] run show ?thesis
    by (auto simp: echo_opts_def EXEC_FLAG_STRIP_ANSI_def)
qed


section \<open>What the command line loses\<close>

text \<open>
  The child copies the command into 512 bytes: whatever comes after its first 511 bytes has no
  influence on what is run.
\<close>

lemma execute_child_ignores_tail:
  "length c = 511 \<Longrightarrow>
   execute_child env (opts\<lparr>xo_command := c @ tail1\<rparr>) fds log =
   execute_child env (opts\<lparr>xo_command := c @ tail2\<rparr>) fds log"
  by (simp add: execute_child_def)

end
