(* ===== verification/String_View.thy ===== *)
theory String_View
  imports Prelude
begin

text \<open>
  std::string_view as the code uses it: searching a text or a character from a position, scanning
  over characters, sub-views, and std::from_chars on 32-bit integers. A view is the list of its
  characters; positions are natural numbers and npos is None.
\<close>

section \<open>Searching\<close>

definition starts_with :: "'a list \<Rightarrow> 'a list \<Rightarrow> bool" where
  "starts_with n s \<longleftrightarrow> take (length n) s = n"

fun find_loop :: "'a list \<Rightarrow> 'a list \<Rightarrow> nat \<Rightarrow> nat option" where
  "find_loop n [] i = (if n = [] then Some i else None)"
| "find_loop n (c # cs) i =
     (if starts_with n (c # cs) then Some i else find_loop n cs (Suc i))"

definition sv_find :: "string \<Rightarrow> string \<Rightarrow> nat \<Rightarrow> nat option" where
  "sv_find s n pos = (if pos \<le> length s then find_loop n (drop pos s) pos else None)"

text \<open>The scanning loops: advance while the character satisfies the condition.\<close>

definition skip_from :: "('a \<Rightarrow> bool) \<Rightarrow> 'a list \<Rightarrow> nat \<Rightarrow> nat" where
  "skip_from p s i = i + length (takeWhile p (drop i s))"

definition substr :: "string \<Rightarrow> nat \<Rightarrow> nat \<Rightarrow> string" where
  "substr s i n = take n (drop i s)"

text \<open>The character at a position, when there is one: the guard i < size together with s[i].\<close>

definition char_at :: "string \<Rightarrow> nat \<Rightarrow> char option" where
  "char_at s i = (if i < length s then Some (s ! i) else None)"

definition occurs_at :: "'a list \<Rightarrow> 'a list \<Rightarrow> nat \<Rightarrow> bool" where
  "occurs_at s n i \<longleftrightarrow> i \<le> length s \<and> starts_with n (drop i s)"

lemma starts_with_Nil [simp]: "starts_with [] s"
  by (simp add: starts_with_def)

lemma starts_with_append [simp]: "starts_with n (n @ s)"
  by (simp add: starts_with_def)

lemma starts_with_refl [simp]: "starts_with n n"
  by (simp add: starts_with_def)

lemma starts_with_length: "starts_with n s \<Longrightarrow> length n \<le> length s"
  unfolding starts_with_def by (metis length_take min.cobounded1)

lemma starts_with_iff: "starts_with n s \<longleftrightarrow> (\<exists>r. s = n @ r)"
  by (metis append_eq_conv_conj append_take_drop_id starts_with_def)

lemma occurs_at_iff: "occurs_at s n i \<longleftrightarrow> (\<exists>p r. s = p @ n @ r \<and> length p = i)"
proof
  assume "occurs_at s n i"
  then obtain r where "i \<le> length s" "drop i s = n @ r"
    by (auto simp: occurs_at_def starts_with_iff)
  then have "s = take i s @ n @ r \<and> length (take i s) = i"
    by (metis append_take_drop_id length_take min.absorb2)
  then show "\<exists>p r. s = p @ n @ r \<and> length p = i" by blast
next
  assume "\<exists>p r. s = p @ n @ r \<and> length p = i"
  then show "occurs_at s n i" by (auto simp: occurs_at_def)
qed

lemma occurs_at_bound: "occurs_at s n i \<Longrightarrow> i + length n \<le> length s"
  by (auto simp: occurs_at_iff)

lemma find_loop_SomeD:
  "find_loop n s k = Some i \<Longrightarrow>
   k \<le> i \<and> occurs_at s n (i - k) \<and> (\<forall>j < i - k. \<not> occurs_at s n j)"
proof (induction n s k rule: find_loop.induct)
  case (1 n k)
  then show ?case by (auto simp: occurs_at_def split: if_splits)
next
  case (2 n c cs k)
  show ?case
  proof (cases "starts_with n (c # cs)")
    case True
    with "2.prems" show ?thesis by (auto simp: occurs_at_def)
  next
    case False
    with 2 have ih: "Suc k \<le> i" "occurs_at cs n (i - Suc k)" "\<forall>j < i - Suc k. \<not> occurs_at cs n j"
      by auto
    have eq: "i - k = Suc (i - Suc k)" using ih(1) by simp
    have "\<not> occurs_at (c # cs) n j" if "j < i - k" for j
      using that ih(3) False eq by (cases j) (auto simp: occurs_at_def)
    moreover have "occurs_at (c # cs) n (i - k)"
      using ih(2) unfolding eq by (simp add: occurs_at_def)
    ultimately show ?thesis using ih(1) by simp
  qed
qed

lemma find_loop_NoneD: "find_loop n s k = None \<Longrightarrow> \<not> occurs_at s n j"
proof (induction n s k arbitrary: j rule: find_loop.induct)
  case (1 n k)
  then show ?case by (auto simp: occurs_at_def starts_with_def split: if_splits)
next
  case (2 n c cs k)
  then show ?case
    by (cases j) (auto simp: occurs_at_def split: if_splits)
qed

lemma occurs_at_drop: "pos \<le> length s \<Longrightarrow> occurs_at (drop pos s) n j \<longleftrightarrow> occurs_at s n (pos + j)"
  by (auto simp: occurs_at_def add.commute)

text \<open>find gives the first occurrence at or after the position.\<close>

lemma sv_find_SomeD:
  assumes "sv_find s n pos = Some i"
  shows "pos \<le> i" and "occurs_at s n i" and "\<And>j. pos \<le> j \<Longrightarrow> j < i \<Longrightarrow> \<not> occurs_at s n j"
proof -
  from assms have p: "pos \<le> length s" and f: "find_loop n (drop pos s) pos = Some i"
    by (auto simp: sv_find_def split: if_splits)
  from find_loop_SomeD [OF f] have a: "pos \<le> i" and b: "occurs_at (drop pos s) n (i - pos)"
    and c: "\<forall>j < i - pos. \<not> occurs_at (drop pos s) n j"
    by auto
  show "pos \<le> i" by (rule a)
  show "occurs_at s n i" using b a occurs_at_drop [OF p, of n "i - pos"] by simp
  fix j assume "pos \<le> j" "j < i"
  then show "\<not> occurs_at s n j"
    using c [rule_format, of "j - pos"] occurs_at_drop [OF p, of n "j - pos"] by simp
qed

lemma sv_find_NoneD:
  assumes "sv_find s n pos = None" and "pos \<le> j"
  shows "\<not> occurs_at s n j"
proof (cases "pos \<le> length s")
  case True
  with assms have "find_loop n (drop pos s) pos = None" by (simp add: sv_find_def)
  from find_loop_NoneD [OF this, of "j - pos"] occurs_at_drop [OF True, of n "j - pos"] assms(2)
  show ?thesis by simp
next
  case False
  with assms(2) show ?thesis by (simp add: occurs_at_def)
qed

lemma sv_find_eqI:
  assumes "pos \<le> i" "occurs_at s n i" "\<And>j. pos \<le> j \<Longrightarrow> j < i \<Longrightarrow> \<not> occurs_at s n j"
  shows "sv_find s n pos = Some i"
proof (cases "sv_find s n pos")
  case None
  from sv_find_NoneD [OF None assms(1)] assms(2) show ?thesis by simp
next
  case (Some k)
  with sv_find_SomeD [OF Some] assms have "k = i" by (meson linorder_neqE_nat)
  with Some show ?thesis by simp
qed

lemma sv_find_hit: "pos \<le> length s \<Longrightarrow> starts_with n (drop pos s) \<Longrightarrow> sv_find s n pos = Some pos"
  by (rule sv_find_eqI) (auto simp: occurs_at_def)

text \<open>A text that contains the needle's first character nowhere before it is found right there.\<close>

lemma sv_find_first_char:
  assumes "c \<notin> set p"
  shows "sv_find (p @ (c # n) @ r) (c # n) 0 = Some (length p)"
proof (rule sv_find_eqI)
  show "0 \<le> length p" by simp
  show "occurs_at (p @ (c # n) @ r) (c # n) (length p)"
    by (auto simp: occurs_at_iff)
  fix j assume j: "j < length p"
  show "\<not> occurs_at (p @ (c # n) @ r) (c # n) j"
  proof
    assume "occurs_at (p @ (c # n) @ r) (c # n) j"
    then obtain q t where q: "p @ (c # n) @ r = q @ c # t" "length q = j"
      by (auto simp: occurs_at_iff)
    then have "(p @ (c # n) @ r) ! j = c"
      by (metis nth_append_length)
    with j assms show False by (metis nth_append nth_mem)
  qed
qed

text \<open>
  A needle that is first found at the end of a piece of text is found there inside any text with
  that piece.
\<close>

lemma sv_find_context:
  assumes "sv_find (a @ n) n 0 = Some (length a)"
  shows "sv_find (p @ a @ n @ r) n (length p) = Some (length p + length a)"
proof (rule sv_find_eqI)
  show "occurs_at (p @ a @ n @ r) n (length p + length a)"
    by (auto simp: occurs_at_def)
  fix j assume j: "length p \<le> j" "j < length p + length a"
  then obtain i where i: "j = length p + i" "i < length a"
    by (metis add_less_cancel_left le_Suc_ex)
  then have "\<not> occurs_at (a @ n) n i"
    using sv_find_SomeD(3) [OF assms] by simp
  then show "\<not> occurs_at (p @ a @ n @ r) n j"
    using i by (simp add: occurs_at_def starts_with_def)
qed simp

lemma sv_find_prefix:
  "sv_find (p @ n) n 0 = Some (length p) \<Longrightarrow> sv_find (p @ n @ r) n 0 = Some (length p)"
  using sv_find_context [of p n "[]" r] by simp

lemma sv_find_bound: "sv_find s n pos = Some i \<Longrightarrow> i + length n \<le> length s"
  using sv_find_SomeD(2) occurs_at_bound by blast

lemma skip_from_le: "i \<le> skip_from p s i"
  by (simp add: skip_from_def)

lemma skip_from_bound: "i \<le> length s \<Longrightarrow> skip_from p s i \<le> length s"
  using length_takeWhile_le [of p "drop i s"] by (simp add: skip_from_def)

lemma skip_from_char: "skip_from p s i < length s \<Longrightarrow> \<not> p (s ! skip_from p s i)"
proof -
  assume a: "skip_from p s i < length s"
  then have "length (takeWhile p (drop i s)) < length (drop i s)"
    by (simp add: skip_from_def)
  then have "\<not> p (drop i s ! length (takeWhile p (drop i s)))"
    by (rule nth_length_takeWhile)
  with a show ?thesis by (simp add: skip_from_def)
qed

lemma skip_from_stop: "i < length s \<Longrightarrow> \<not> p (s ! i) \<Longrightarrow> skip_from p s i = i"
  by (simp add: skip_from_def Cons_nth_drop_Suc [symmetric])

lemma skip_from_weaken:
  assumes "\<And>c. p c \<Longrightarrow> q c" and "char_at s (skip_from p s i) = Some c" and "\<not> q c"
  shows "skip_from q s i = skip_from p s i"
proof -
  let ?d = "drop i s" let ?a = "takeWhile p ?d"
  have lt: "length ?a < length ?d" and c: "?d ! length ?a = c"
    using assms(2) by (auto simp: skip_from_def char_at_def split: if_splits)
  have "?d = ?a @ c # drop (Suc (length ?a)) ?d"
    using id_take_nth_drop [OF lt] c by (simp add: takeWhile_eq_take [symmetric])
  then have "takeWhile q ?d = takeWhile q (?a @ c # drop (Suc (length ?a)) ?d)"
    by simp
  also have "\<dots> = ?a"
    using assms(1,3) by (subst takeWhile_append2) (auto dest: set_takeWhileD)
  finally show ?thesis by (simp add: skip_from_def)
qed

section \<open>Numbers\<close>

definition is_digit :: "char \<Rightarrow> bool" where
  "is_digit c \<longleftrightarrow> 48 \<le> (of_char c :: nat) \<and> (of_char c :: nat) \<le> 57"

text \<open>
  std::from_chars to an int32_t: an optional minus sign and decimal digits. None is an error code:
  no digits, or a value out of range.
\<close>

definition from_chars_i32 :: "string \<Rightarrow> i32 option" where
  "from_chars_i32 s =
     (let neg = (s \<noteq> [] \<and> hd s = CHR ''-'');
          ds = takeWhile is_digit (if neg then tl s else s);
          v = decimal_val ds
      in if ds = [] then None
         else if neg then (if int v \<le> 2 ^ 31 then Some (- of_nat v) else None)
         else (if int v < 2 ^ 31 then Some (of_nat v) else None))"

lemma is_digit_decimal: "c \<in> set (decimal n) \<Longrightarrow> is_digit c"
  using decimal_digits [of c n] by (simp add: is_digit_def)

lemma takeWhile_decimal:
  assumes "r = [] \<or> \<not> is_digit (hd r)"
  shows "takeWhile is_digit (decimal n @ r) = decimal n"
  using assms by (cases r) (auto simp: takeWhile_append2 is_digit_decimal)

lemma from_chars_decimal:
  assumes "n < 2 ^ 31" and "r = [] \<or> \<not> is_digit (hd r)"
  shows "from_chars_i32 (decimal n @ r) = Some (of_nat n)"
proof -
  have "is_digit (hd (decimal n))"
    by (rule is_digit_decimal [of _ n]) (simp add: hd_in_set)
  then have "hd (decimal n) \<noteq> CHR ''-''"
    by (auto simp: is_digit_def)
  then show ?thesis
    using assms by (simp add: from_chars_i32_def takeWhile_decimal)
qed

end
