(* ===== verification/Ax_Filter.thy ===== *)
theory Ax_Filter
  imports String_View Fixed_Vector
begin

text \<open>
  AXTreeFilter of include/axiom/cdp.hpp: the field extractors over the JSON text of a node, the
  bounded output text, and \<open>filter_and_format\<close>, which walks the objects of the "nodes" array,
  drops ignored, layout and duplicate nodes, numbers the actionable ones and prints one line per
  node. A specification in terms of lists (the objects, the kept nodes, their handles, the text
  pieces that fit) is refined by the code's loop.
\<close>

section \<open>Constants and nodes\<close>

definition MAX_AX_NODES :: nat where
  "MAX_AX_NODES = 256"

definition MAX_HANDLES :: nat where
  "MAX_HANDLES = 256"

text \<open>
  AXNode; the views point into the JSON text, which does not change during the call. A handle is
  below \<open>MAX_HANDLES\<close>, so its uint32_t never wraps.
\<close>

record ax_node =
  n_handle :: nat
  n_backend :: i32
  n_role :: string
  n_name :: string
  n_value :: string
  n_desc :: string
  n_level :: u32
  n_actionable :: bool
  n_focused :: bool
  n_disabled :: bool

definition ax_node_init :: ax_node where
  "ax_node_init = \<lparr>n_handle = 0, n_backend = 0, n_role = [], n_name = [], n_value = [], n_desc = [],
     n_level = 0, n_actionable = False, n_focused = False, n_disabled = False\<rparr>"

definition is_actionable_role :: "string \<Rightarrow> bool" where
  "is_actionable_role role \<longleftrightarrow> role \<in> set
     [''button'', ''link'', ''textbox'', ''searchbox'', ''checkbox'', ''radio'', ''combobox'',
      ''listbox'', ''menuitem'', ''menuitemcheckbox'', ''menuitemradio'', ''tab'', ''switch'',
      ''slider'', ''spinbutton'', ''treeitem'']"

definition is_layout_role :: "string \<Rightarrow> bool" where
  "is_layout_role role \<longleftrightarrow> role \<in> set
     [''none'', ''generic'', ''genericContainer'', ''LineBreak'', ''InlineTextBox'',
      ''RootWebArea'', ''group'', ''Section'', ''paragraph'', ''LayoutTable'',
      ''LayoutTableRow'', ''LayoutTableCell'', ''Ignored'']"

section \<open>Field extraction\<close>

definition QUOTE :: char where
  "QUOTE = CHR 0x22"

definition BACKSLASH :: char where
  "BACKSLASH = CHR 0x5C"

definition key :: "string \<Rightarrow> string" where
  "key s = QUOTE # s @ [QUOTE]"

definition ws3 :: "char \<Rightarrow> bool" where
  "ws3 c \<longleftrightarrow> c = CHR '' '' \<or> c = CHR 0x09 \<or> c = CHR 0x0A"

definition ws2 :: "char \<Rightarrow> bool" where
  "ws2 c \<longleftrightarrow> c = CHR '' '' \<or> c = CHR 0x09"

text \<open>
  The position after the colon of a field and the blanks behind it, which the three extractors
  compute alike: None when the field name or the colon is missing.
\<close>

definition field_start :: "string \<Rightarrow> string \<Rightarrow> nat option" where
  "field_start obj field =
     do {
       pos \<leftarrow> sv_find obj field 0;
       colon \<leftarrow> sv_find obj '':'' (pos + length field);
       Some (skip_from ws3 obj (colon + 1))
     }"

text \<open>The position of a nested object's value: behind the colon of its "value" key.\<close>

definition nested_value :: "string \<Rightarrow> nat \<Rightarrow> nat option" where
  "nested_value obj i =
     do {
       val_key \<leftarrow> sv_find obj (key ''value'') i;
       val_colon \<leftarrow> sv_find obj '':'' (val_key + 7);
       Some (skip_from ws2 obj (val_colon + 1))
     }"

text \<open>The loop that finds the closing quote: an escaped character never ends the string.\<close>

fun str_end_loop :: "bool \<Rightarrow> string \<Rightarrow> nat \<Rightarrow> nat" where
  "str_end_loop escape [] i = i"
| "str_end_loop escape (c # cs) i =
     (if escape then str_end_loop False cs (Suc i)
      else if c = BACKSLASH then str_end_loop True cs (Suc i)
      else if c = QUOTE then i
      else str_end_loop False cs (Suc i))"

definition quoted_at :: "string \<Rightarrow> nat \<Rightarrow> string" where
  "quoted_at obj i =
     (if char_at obj i \<noteq> Some QUOTE then []
      else let str_start = i + 1;
               str_end = str_end_loop False (drop str_start obj) str_start
           in substr obj str_start (str_end - str_start))"

definition extract_field_str :: "string \<Rightarrow> string \<Rightarrow> string" where
  "extract_field_str obj field =
     (case field_start obj field of
        None \<Rightarrow> []
      | Some after_colon \<Rightarrow>
          if char_at obj after_colon = Some (CHR ''{'')
          then (case nested_value obj after_colon of None \<Rightarrow> [] | Some i \<Rightarrow> quoted_at obj i)
          else quoted_at obj after_colon)"

definition extract_field_int :: "string \<Rightarrow> string \<Rightarrow> i32" where
  "extract_field_int obj field =
     (case field_start obj field of
        None \<Rightarrow> 0
      | Some cur0 \<Rightarrow>
          let cur = (if char_at obj cur0 = Some (CHR ''{'')
                     then (case nested_value obj cur0 of None \<Rightarrow> cur0 | Some i \<Rightarrow> i)
                     else cur0)
          in (case from_chars_i32 (drop cur obj) of Some val \<Rightarrow> val | None \<Rightarrow> 0))"

definition extract_field_bool :: "string \<Rightarrow> string \<Rightarrow> bool" where
  "extract_field_bool obj field =
     (case field_start obj field of
        None \<Rightarrow> False
      | Some cur \<Rightarrow> substr obj cur 4 = ''true'')"

section \<open>The bounded output\<close>

definition append_to_buf :: "char arr \<times> nat \<Rightarrow> string \<Rightarrow> bool \<times> char arr \<times> nat" where
  "append_to_buf out str =
     (let (buf, off) = out in
      if off + length str > alen buf then (False, buf, off)
      else (True, acopy buf off str, off + length str))"

text \<open>to_chars writes into sixteen characters; ten digits are the most a uint32_t needs.\<close>

definition append_int :: "char arr \<times> nat \<Rightarrow> nat \<Rightarrow> bool \<times> char arr \<times> nat" where
  "append_int out val =
     (if 16 < length (decimal val) then (False, out) else append_to_buf out (decimal val))"

section \<open>The walk over the node array\<close>

text \<open>The characters that the object at the front of the text takes up, its braces included.\<close>

fun scan_object :: "nat \<Rightarrow> bool \<Rightarrow> bool \<Rightarrow> string \<Rightarrow> nat" where
  "scan_object depth in_str esc [] = 0"
| "scan_object depth in_str esc (c # cs) =
     (if esc then Suc (scan_object depth in_str False cs)
      else if c = BACKSLASH then Suc (scan_object depth in_str True cs)
      else if c = QUOTE then Suc (scan_object depth (\<not> in_str) False cs)
      else if \<not> in_str \<and> c = CHR ''{'' then Suc (scan_object (Suc depth) in_str False cs)
      else if \<not> in_str \<and> c = CHR ''}'' then
        (if depth - 1 = 0 then 1 else Suc (scan_object (depth - 1) in_str False cs))
      else Suc (scan_object depth in_str False cs))"

record ax_state =
  ax_nodes :: "ax_node fvec"
  ax_out :: "char arr \<times> nat"
  ax_map :: "i32 arr"
  ax_cur :: nat

definition duplicate_text :: "ax_node list \<Rightarrow> string \<Rightarrow> bool" where
  "duplicate_text ns name \<longleftrightarrow> (\<exists>n \<in> set ns. n_name n = name \<or> n_value n = name)"

text \<open>
  The node of one object: None for an ignored object, a layout role, and a static text without a
  name or with one that is already shown.
\<close>

definition node_of :: "ax_node list \<Rightarrow> string \<Rightarrow> ax_node option" where
  "node_of ns obj =
     (let role = extract_field_str obj (key ''role'');
          name = extract_field_str obj (key ''name'')
      in if extract_field_bool obj (key ''ignored'') then None
         else if is_layout_role role then None
         else if role = ''StaticText'' \<and> (name = [] \<or> duplicate_text ns name) then None
         else let level = (if role = ''heading''
                           then (let l = extract_field_int obj (key ''level'')
                                 in if l = 0 then 1 else l)
                           else 0)
              in Some \<lparr>n_handle = 0,
                       n_backend = extract_field_int obj (key ''backendDOMNodeId''),
                       n_role = role, n_name = name,
                       n_value = extract_field_str obj (key ''value''),
                       n_desc = extract_field_str obj (key ''description''),
                       n_level = level, n_actionable = is_actionable_role role,
                       n_focused = extract_field_bool obj (key ''focused''),
                       n_disabled = extract_field_bool obj (key ''disabled'')\<rparr>)"

text \<open>The texts appended for a node, in order; each is appended whole or not at all.\<close>

definition node_pieces :: "ax_node \<Rightarrow> string list" where
  "node_pieces n =
     (if n_actionable n then
        [''[@'', decimal (n_handle n), ''] '', n_role n]
        @ (if n_name n \<noteq> [] then ['' '' @ [QUOTE], n_name n, [QUOTE]] else [])
        @ (if n_value n \<noteq> [] then ['' (value='' @ [QUOTE], n_value n, QUOTE # '')''] else [])
        @ (if n_desc n \<noteq> [] then ['' (desc='' @ [QUOTE], n_desc n, QUOTE # '')''] else [])
        @ [[CHR 0x0A]]
      else if n_role n = ''heading'' then
        [''[heading:'', decimal (unat (n_level n)), ''] '' @ [QUOTE], n_name n,
         [QUOTE, CHR 0x0A]]
      else if n_name n \<noteq> [] then
        [''text: '' @ [QUOTE], n_name n, [QUOTE, CHR 0x0A]]
      else [])"

definition append_piece :: "char arr \<times> nat \<Rightarrow> string \<Rightarrow> char arr \<times> nat" where
  "append_piece out str = snd (append_to_buf out str)"

definition format_node :: "ax_node \<Rightarrow> char arr \<times> nat \<Rightarrow> char arr \<times> nat" where
  "format_node n out = foldl append_piece out (node_pieces n)"

text \<open>An actionable node takes the next handle while the handle map has room for it.\<close>

definition assign_handle :: "ax_state \<Rightarrow> ax_node \<Rightarrow> ax_node \<times> ax_state" where
  "assign_handle st n =
     (if n_actionable n \<and> ax_cur st + 1 < MAX_HANDLES \<and> ax_cur st + 1 < alen (ax_map st)
      then (n\<lparr>n_handle := ax_cur st + 1\<rparr>,
            st\<lparr>ax_cur := ax_cur st + 1, ax_map := aput (ax_map st) (ax_cur st + 1) (n_backend n)\<rparr>)
      else (n, st))"

text \<open>One object; the flag is False for the break when the node list is full.\<close>

definition ax_step :: "string \<Rightarrow> ax_state \<Rightarrow> bool \<times> ax_state" where
  "ax_step obj st =
     (case node_of (fv_as_span (ax_nodes st)) obj of
        None \<Rightarrow> (True, st)
      | Some n0 \<Rightarrow>
          let (n, st1) = assign_handle st n0;
              (ok, nodes) = fv_push_back (ax_nodes st1) n
          in if ok then (True, st1\<lparr>ax_nodes := nodes, ax_out := format_node n (ax_out st1)\<rparr>)
             else (False, st1))"

lemma scan_object_le: "scan_object d s e cs \<le> length cs"
  by (induction d s e cs rule: scan_object.induct) auto

lemma scan_object_pos: "0 < scan_object d s e (c # cs)"
  by auto

text \<open>The outer loop on the text that is left: skip to an object, or stop at the array's end.\<close>

function ax_loop :: "string \<Rightarrow> ax_state \<Rightarrow> ax_state" where
  "ax_loop rest st =
     (let s = dropWhile (\<lambda>c. c \<noteq> CHR ''{'' \<and> c \<noteq> CHR '']'') rest in
      if s = [] \<or> hd s = CHR '']'' then st
      else let k = scan_object 0 False False s;
               (go, st') = ax_step (take k s) st
           in if go then ax_loop (drop k s) st' else st')"
  by pat_completeness auto

termination
proof (relation "measure (\<lambda>(rest, st). length rest)", goal_cases)
  case 1
  show ?case by simp
next
  case (2 rest st s k p go st')
  then have "s \<noteq> []" by blast
  then have "0 < k" using 2(3) scan_object_pos by (cases s) auto
  moreover have "length s \<le> length rest" using 2(1) length_dropWhile_le by auto
  moreover have "0 < length s" using \<open>s \<noteq> []\<close> by simp
  ultimately have "length s - k < length rest" by linarith
  then show ?case by simp
qed

declare ax_loop.simps [simp del]

definition filter_and_format ::
  "string \<Rightarrow> ax_node fvec \<Rightarrow> char arr \<Rightarrow> i32 arr \<Rightarrow>
   nat result \<times> ax_node fvec \<times> char arr \<times> i32 arr" where
  "filter_and_format json nodes text hmap =
     (let nodes0 = fv_clear nodes;
          hmap0 = acopy hmap 0 (replicate (alen hmap) 0)
      in case sv_find json (key ''nodes'') 0 of
           None \<Rightarrow> (Inl ProtocolError, nodes0, text, hmap0)
         | Some nodes_pos \<Rightarrow>
             (case sv_find json ''['' nodes_pos of
                None \<Rightarrow> (Inl ProtocolError, nodes0, text, hmap0)
              | Some bracket \<Rightarrow>
                  let st = ax_loop (drop (bracket + 1) json)
                             \<lparr>ax_nodes = nodes0, ax_out = (text, 0), ax_map = hmap0, ax_cur = 0\<rparr>
                  in (Inr (snd (ax_out st)), ax_nodes st, fst (ax_out st), ax_map st)))"

section \<open>Specification\<close>

text \<open>
  The text of the node array, the objects in it, the nodes kept from them and the numbering of the
  actionable ones; and, for the output, the pieces that fit.
\<close>

definition node_array :: "string \<Rightarrow> string option" where
  "node_array json =
     do {
       nodes_pos \<leftarrow> sv_find json (key ''nodes'') 0;
       bracket \<leftarrow> sv_find json ''['' nodes_pos;
       Some (drop (bracket + 1) json)
     }"

function objects :: "string \<Rightarrow> string list" where
  "objects rest =
     (let s = dropWhile (\<lambda>c. c \<noteq> CHR ''{'' \<and> c \<noteq> CHR '']'') rest in
      if s = [] \<or> hd s = CHR '']'' then []
      else let k = scan_object 0 False False s in take k s # objects (drop k s))"
  by pat_completeness auto

termination
proof (relation "measure length", goal_cases)
  case 1
  show ?case by simp
next
  case (2 rest s k)
  then have "s \<noteq> []" by blast
  then have "0 < k" using 2(3) scan_object_pos by (cases s) auto
  moreover have "length s \<le> length rest" using 2(1) length_dropWhile_le by auto
  moreover have "0 < length s" using \<open>s \<noteq> []\<close> by simp
  ultimately have "length s - k < length rest" by linarith
  then show ?case by simp
qed

declare objects.simps [simp del]

fun select :: "ax_node list \<Rightarrow> string list \<Rightarrow> ax_node list" where
  "select ns [] = []"
| "select ns (obj # objs) =
     (case node_of ns obj of
        None \<Rightarrow> select ns objs
      | Some n \<Rightarrow> n # select (ns @ [n]) objs)"

fun number :: "nat \<Rightarrow> nat \<Rightarrow> ax_node list \<Rightarrow> ax_node list" where
  "number lim i [] = []"
| "number lim i (n # ns) =
     (if n_actionable n \<and> i + 1 < lim
      then n\<lparr>n_handle := i + 1\<rparr> # number lim (i + 1) ns
      else n # number lim i ns)"

fun fit_pieces :: "nat \<Rightarrow> string list \<Rightarrow> string" where
  "fit_pieces room [] = []"
| "fit_pieces room (p # ps) =
     (if length p \<le> room then p @ fit_pieces (room - length p) ps else fit_pieces room ps)"

fun ax_run :: "string list \<Rightarrow> ax_state \<Rightarrow> ax_state" where
  "ax_run [] st = st"
| "ax_run (obj # objs) st =
     (case ax_step obj st of (go, st') \<Rightarrow> if go then ax_run objs st' else st')"

lemma ax_loop_objects: "ax_loop rest st = ax_run (objects rest) st"
proof (induction rest st rule: ax_loop.induct)
  case (1 rest st)
  show ?case
  proof (cases "let s = dropWhile (\<lambda>c. c \<noteq> CHR ''{'' \<and> c \<noteq> CHR '']'') rest in
      s = [] \<or> hd s = CHR '']''")
    case True
    then show ?thesis
      by (subst ax_loop.simps, subst objects.simps) (simp add: Let_def)
  next
    case False
    then show ?thesis
      by (subst ax_loop.simps, subst objects.simps)
        (use 1 in \<open>auto simp: Let_def split: prod.splits\<close>)
  qed
qed

section \<open>The loop refines the specification\<close>

lemma node_of_handle: "node_of ns obj = Some n \<Longrightarrow> n_handle n = 0"
  by (auto simp: node_of_def Let_def split: if_splits)

lemma node_of_cong: "duplicate_text ns = duplicate_text ns' \<Longrightarrow> node_of ns obj = node_of ns' obj"
  by (simp only: node_of_def)

lemma duplicate_text_append:
  "duplicate_text (ns @ ms) x \<longleftrightarrow> duplicate_text ns x \<or> duplicate_text ms x"
  by (auto simp: duplicate_text_def)

lemma select_cong:
  "duplicate_text ns = duplicate_text ns' \<Longrightarrow> select ns objs = select ns' objs"
proof (induction objs arbitrary: ns ns')
  case Nil
  then show ?case by simp
next
  case (Cons obj objs)
  have "select (ns @ [n]) objs = select (ns' @ [n]) objs" for n
    by (rule Cons.IH) (simp add: fun_eq_iff duplicate_text_append Cons.prems)
  then show ?case
    using Cons.IH [OF Cons.prems] node_of_cong [OF Cons.prems, of obj]
    by (simp split: option.splits)
qed

lemma select_handle:
  "select (ns @ [n\<lparr>n_handle := h\<rparr>]) objs = select (ns @ [n]) objs"
  by (rule select_cong) (simp add: fun_eq_iff duplicate_text_append, simp add: duplicate_text_def)

definition handle_limit :: "ax_state \<Rightarrow> nat" where
  "handle_limit st = min MAX_HANDLES (alen (ax_map st))"

lemma handle_limit_upd [simp]: "handle_limit (st\<lparr>ax_nodes := v, ax_out := out\<rparr>) = handle_limit st"
  by (simp add: handle_limit_def)

lemma assign_handle_number:
  assumes "assign_handle st n = (n', st')"
  shows "number (handle_limit st) (ax_cur st) (n # ns)
         = n' # number (handle_limit st') (ax_cur st') ns"
    and "ax_nodes st' = ax_nodes st" and "ax_out st' = ax_out st"
    and "handle_limit st' = handle_limit st"
    and "select (ms @ [n']) objs = select (ms @ [n]) objs"
  using assms
  by (auto simp: assign_handle_def handle_limit_def select_handle split: if_splits)

lemma ax_run_nodes:
  assumes "fv_wf (ax_nodes st)"
  shows "fv_as_span (ax_nodes (ax_run objs st))
    = take (fv_capacity (ax_nodes st))
        (fv_as_span (ax_nodes st)
         @ number (handle_limit st) (ax_cur st) (select (fv_as_span (ax_nodes st)) objs))"
  using assms
proof (induction objs arbitrary: st)
  case Nil
  then show ?case using fv.items_room [of "ax_nodes st"] by simp
next
  case (Cons obj objs)
  show ?case
  proof (cases "node_of (fv_as_span (ax_nodes st)) obj")
    case None
    then show ?thesis using Cons by (simp add: ax_step_def)
  next
    case (Some n)
    obtain n' st1 where a: "assign_handle st n = (n', st1)" by (cases "assign_handle st n")
    note as = assign_handle_number [OF a]
    let ?v = "ax_nodes st"
    show ?thesis
    proof (cases "fv_size ?v < fv_capacity ?v")
      case True
      have p: "fst (fv_push_back ?v n')" "fv_as_span (snd (fv_push_back ?v n')) = fv_as_span ?v @ [n']"
        using fv.push_fits [of ?v n'] Cons.prems True by auto
      have w: "fv_wf (snd (fv_push_back ?v n'))" by (rule fv.wf_push) (rule Cons.prems)
      show ?thesis
        using Some a as(2-4) p(1) Cons.IH [of "st1\<lparr>ax_nodes := snd (fv_push_back ?v n'),
            ax_out := format_node n' (ax_out st1)\<rparr>"] w
        by (auto simp: ax_step_def p(2) as(5) as(1) fv.room_push
              simp del: number.simps(2) take_append split: prod.splits)
    next
      case False
      then have "fv_push_back ?v n' = (False, ?v)"
        using fv.push_full [of ?v n'] Cons.prems by simp
      then show ?thesis
        using Some a as(2) False Cons.prems by (simp add: ax_step_def fv_wf_def)
    qed
  qed
qed

lemma ax_run_out:
  assumes "fv_wf (ax_nodes st)"
  shows "\<exists>new. fv_as_span (ax_nodes (ax_run objs st)) = fv_as_span (ax_nodes st) @ new \<and>
    ax_out (ax_run objs st) = foldl append_piece (ax_out st) (concat (map node_pieces new))"
  using assms
proof (induction objs arbitrary: st)
  case Nil
  then show ?case by simp
next
  case (Cons obj objs)
  obtain go st' where s: "ax_step obj st = (go, st')" by (cases "ax_step obj st")
  have "fv_wf (ax_nodes st') \<and>
      (\<exists>new. fv_as_span (ax_nodes st') = fv_as_span (ax_nodes st) @ new \<and>
             ax_out st' = foldl append_piece (ax_out st) (concat (map node_pieces new)))"
  proof (cases "node_of (fv_as_span (ax_nodes st)) obj")
    case None
    with s Cons.prems show ?thesis by (simp add: ax_step_def)
  next
    case (Some n)
    obtain n' st1 where a: "assign_handle st n = (n', st1)" by (cases "assign_handle st n")
    note as = assign_handle_number [OF a]
    obtain ok v' where p: "fv_push_back (ax_nodes st) n' = (ok, v')"
      by (cases "fv_push_back (ax_nodes st) n'")
    have w: "fv_wf v'" using fv.wf_push [OF Cons.prems, of n'] p by simp
    have "ok \<Longrightarrow> fv_as_span v' = fv_as_span (ax_nodes st) @ [n']"
      using fv_as_span_push [OF Cons.prems, of n'] p by (auto simp: fv_push_back_def split: if_splits)
    with s Some a as(2,3) p w Cons.prems show ?thesis
      by (cases ok) (auto simp: ax_step_def format_node_def)
  qed
  then obtain new where w: "fv_wf (ax_nodes st')"
    and n: "fv_as_span (ax_nodes st') = fv_as_span (ax_nodes st) @ new"
    and o: "ax_out st' = foldl append_piece (ax_out st) (concat (map node_pieces new))"
    by auto
  show ?case
  proof (cases go)
    case True
    obtain new' where
      "fv_as_span (ax_nodes (ax_run objs st')) = fv_as_span (ax_nodes st') @ new'"
      "ax_out (ax_run objs st') = foldl append_piece (ax_out st') (concat (map node_pieces new'))"
      using Cons.IH [OF w] by auto
    then show ?thesis using True s n o by (intro exI [of _ "new @ new'"]) simp
  next
    case False
    then show ?thesis using s n o by auto
  qed
qed

section \<open>Output and handles\<close>

lemma append_pieces:
  "off \<le> alen buf \<Longrightarrow> foldl append_piece (buf, off) ps = (buf', off') \<Longrightarrow>
   alen buf' = alen buf \<and> off' \<le> alen buf \<and>
   apre buf' off' = apre buf off @ fit_pieces (alen buf - off) ps"
proof (induction ps arbitrary: buf off)
  case Nil
  then show ?case by simp
next
  case (Cons p ps)
  show ?case
  proof (cases "off + length p \<le> alen buf")
    case True
    then have "append_piece (buf, off) p = (acopy buf off p, off + length p)"
      by (simp add: append_piece_def append_to_buf_def)
    moreover from True have "length p \<le> alen buf - off" by simp
    ultimately show ?thesis
      using Cons.IH [of "off + length p" "acopy buf off p"] Cons.prems True
      by (simp add: apre_acopy)
  next
    case False
    then have "append_piece (buf, off) p = (buf, off)"
      by (simp add: append_piece_def append_to_buf_def)
    moreover from False Cons.prems(1) have "\<not> length p \<le> alen buf - off" by linarith
    ultimately show ?thesis using Cons.IH [of off buf] Cons.prems by simp
  qed
qed

lemma fit_pieces_all: "length (concat ps) \<le> room \<Longrightarrow> fit_pieces room ps = concat ps"
  by (induction ps arbitrary: room) auto

lemma number_handles:
  assumes "\<forall>n \<in> set ns. n_handle n = 0"
  shows "\<exists>k. filter (\<lambda>h. h \<noteq> 0) (map n_handle (take m (number lim i ns))) = [Suc i ..< Suc i + k]"
  using assms
proof (induction ns arbitrary: m i)
  case Nil
  have "filter (\<lambda>h. h \<noteq> 0) (map n_handle (take m (number lim i []))) = [Suc i ..< Suc i + 0]"
    by simp
  then show ?case by blast
next
  case (Cons n ns)
  have empty: "\<exists>k. [] = [Suc i ..< Suc i + k]" by (rule exI [of _ 0]) simp
  show ?case
  proof (cases m)
    case 0
    with empty show ?thesis by simp
  next
    case (Suc m')
    show ?thesis
    proof (cases "n_actionable n \<and> i + 1 < lim")
      case True
      obtain k where
        "filter (\<lambda>h. h \<noteq> 0) (map n_handle (take m' (number lim (Suc i) ns)))
         = [Suc (Suc i) ..< Suc (Suc i) + k]"
        using Cons.IH [of m' "Suc i"] Cons.prems by auto
      then have "filter (\<lambda>h. h \<noteq> 0) (map n_handle (take m (number lim i (n # ns))))
          = Suc i # [Suc (Suc i) ..< Suc (Suc i) + k]"
        using True Suc by simp
      also have "\<dots> = [Suc i ..< Suc i + Suc k]"
        by (simp add: upt_conv_Cons)
      finally show ?thesis by blast
    next
      case False
      then show ?thesis using Cons.IH [of m' i] Cons.prems Suc by auto
    qed
  qed
qed

lemma number_bounds:
  "n \<in> set (number lim i ns) \<Longrightarrow> \<forall>m \<in> set ns. n_handle m = 0 \<Longrightarrow> n_handle n \<noteq> 0 \<Longrightarrow>
   n_actionable n \<and> i < n_handle n \<and> n_handle n < lim"
  by (induction ns arbitrary: i) (fastforce split: if_splits)+

lemma select_handles_zero: "n \<in> set (select ns objs) \<Longrightarrow> n_handle n = 0"
  by (induction objs arbitrary: ns) (auto split: option.splits dest: node_of_handle)

text \<open>Every numbered node's entry of the handle map is its DOM node.\<close>

definition ax_map_ok :: "ax_state \<Rightarrow> bool" where
  "ax_map_ok st \<longleftrightarrow> (\<forall>n \<in> set (fv_as_span (ax_nodes st)).
     n_handle n \<noteq> 0 \<longrightarrow> n_handle n \<le> ax_cur st \<and> aget (ax_map st) (n_handle n) = n_backend n)"

lemma ax_step_map_ok:
  assumes "fv_wf (ax_nodes st)" "ax_map_ok st" "ax_step obj st = (go, st')"
  shows "fv_wf (ax_nodes st') \<and> ax_map_ok st'"
proof (cases "node_of (fv_as_span (ax_nodes st)) obj")
  case None
  with assms show ?thesis by (simp add: ax_step_def)
next
  case (Some n)
  obtain n' st1 where a: "assign_handle st n = (n', st1)" by (cases "assign_handle st n")
  obtain ok v' where p: "fv_push_back (ax_nodes st) n' = (ok, v')"
    by (cases "fv_push_back (ax_nodes st) n'")
  have w: "fv_wf v'" using fv.wf_push [OF assms(1), of n'] p by simp
  have "set (fv_as_span v') \<subseteq> insert n' (set (fv_as_span (ax_nodes st)))"
    using fv_as_span_push [OF assms(1), of n'] p by (auto split: if_splits)
  moreover have "n_handle n' \<noteq> 0 \<longrightarrow>
      n_handle n' \<le> ax_cur st1 \<and> aget (ax_map st1) (n_handle n') = n_backend n'"
    using a node_of_handle [OF Some] by (auto simp: assign_handle_def aget_aput split: if_splits)
  moreover have "ax_map_ok st1"
    using a assms(2)
    by (fastforce simp: assign_handle_def ax_map_ok_def aget_aput split: if_splits)
  ultimately have "ax_map_ok (st1\<lparr>ax_nodes := v', ax_out := format_node n' (ax_out st1)\<rparr>)"
    by (auto simp: ax_map_ok_def assign_handle_number(2) [OF a])
  with assms(3) Some a p w assms(1) assign_handle_number(2) [OF a] \<open>ax_map_ok st1\<close>
  show ?thesis by (auto simp: ax_step_def split: if_splits)
qed

lemma ax_run_map_ok:
  "fv_wf (ax_nodes st) \<Longrightarrow> ax_map_ok st \<Longrightarrow> ax_map_ok (ax_run objs st)"
proof (induction objs arbitrary: st)
  case Nil
  then show ?case by simp
next
  case (Cons obj objs)
  then show ?case
    using ax_step_map_ok [of st obj] by (auto split: prod.splits)
qed

text \<open>What filter_and_format returns, in terms of the loop over the objects.\<close>

lemma filter_and_format_run:
  "filter_and_format json nodes text hmap =
     (case node_array json of
        None \<Rightarrow> (Inl ProtocolError, fv_clear nodes, text, acopy hmap 0 (replicate (alen hmap) 0))
      | Some body \<Rightarrow>
          let st = ax_run (objects body)
                \<lparr>ax_nodes = fv_clear nodes, ax_out = (text, 0),
                 ax_map = acopy hmap 0 (replicate (alen hmap) 0), ax_cur = 0\<rparr>
          in (Inr (snd (ax_out st)), ax_nodes st, fst (ax_out st), ax_map st))"
  by (simp add: filter_and_format_def node_array_def ax_loop_objects Let_def
        split: option.splits)

text \<open>The buffers keep their sizes, the offset stays in the text and the node list stays well formed.\<close>

definition ax_shape :: "nat \<Rightarrow> nat \<Rightarrow> nat \<Rightarrow> ax_state \<Rightarrow> bool" where
  "ax_shape t h c st \<longleftrightarrow> alen (fst (ax_out st)) = t \<and> snd (ax_out st) \<le> t \<and> alen (ax_map st) = h \<and>
     fv_wf (ax_nodes st) \<and> fv_capacity (ax_nodes st) = c"

lemma append_piece_shape:
  "alen (fst out) = t \<Longrightarrow> snd out \<le> t \<Longrightarrow>
   alen (fst (append_piece out s)) = t \<and> snd (append_piece out s) \<le> t"
  by (cases out) (auto simp: append_piece_def append_to_buf_def)

lemma foldl_piece_shape:
  "alen (fst out) = t \<Longrightarrow> snd out \<le> t \<Longrightarrow>
   alen (fst (foldl append_piece out ps)) = t \<and> snd (foldl append_piece out ps) \<le> t"
  by (induction ps arbitrary: out) (auto simp: append_piece_shape)

lemma ax_step_shape:
  assumes "ax_shape t h c st" "ax_step obj st = (go, st')"
  shows "ax_shape t h c st'"
proof (cases "node_of (fv_as_span (ax_nodes st)) obj")
  case None
  with assms show ?thesis by (simp add: ax_step_def)
next
  case (Some n)
  obtain n' st1 where a: "assign_handle st n = (n', st1)" by (cases "assign_handle st n")
  then have st1: "ax_out st1 = ax_out st" "ax_nodes st1 = ax_nodes st" "alen (ax_map st1) = alen (ax_map st)"
    by (auto simp: assign_handle_def split: if_splits)
  obtain ok v' where p: "fv_push_back (ax_nodes st) n' = (ok, v')"
    by (cases "fv_push_back (ax_nodes st) n'")
  have "fv_wf v'" "fv_capacity v' = fv_capacity (ax_nodes st)"
    using fv.wf_push [of "ax_nodes st" n'] fv.room_push [of "ax_nodes st" n'] assms(1) p
    by (simp_all add: ax_shape_def)
  with assms Some a p st1 foldl_piece_shape [of "ax_out st" t "node_pieces n'"] show ?thesis
    by (auto simp: ax_step_def ax_shape_def format_node_def split: if_splits)
qed

lemma ax_run_shape: "ax_shape t h c st \<Longrightarrow> ax_shape t h c (ax_run objs st)"
proof (induction objs arbitrary: st)
  case Nil
  then show ?case by simp
next
  case (Cons obj objs)
  then show ?case using ax_step_shape [of t h c st obj] by (auto split: prod.splits)
qed

lemma filter_and_format_shape:
  assumes "filter_and_format json nodes text hmap = (r, nodes', text', hmap')"
  shows "alen text' = alen text \<and> alen hmap' = alen hmap \<and> fv_wf nodes' \<and>
    fv_capacity nodes' = fv_capacity nodes \<and> (\<forall>off. r = Inr off \<longrightarrow> off \<le> alen text)"
proof (cases "node_array json")
  case None
  with assms show ?thesis by (auto simp: filter_and_format_run)
next
  case (Some body)
  let ?st = "\<lparr>ax_nodes = fv_clear nodes, ax_out = (text, 0),
    ax_map = acopy hmap 0 (replicate (alen hmap) 0), ax_cur = 0\<rparr>"
  have "ax_shape (alen text) (alen hmap) (fv_capacity nodes) (ax_run (objects body) ?st)"
    by (rule ax_run_shape) (simp add: ax_shape_def)
  with assms Some show ?thesis by (auto simp: filter_and_format_run ax_shape_def Let_def)
qed

section \<open>Properties of the filter\<close>

definition sample_node :: "string \<Rightarrow> string \<Rightarrow> string" where
  "sample_node role name =
     ''{'' @ key ''role'' @ '':{'' @ key ''value'' @ '':'' @ key role @ ''},''
     @ key ''name'' @ '':{'' @ key ''value'' @ '':'' @ key name @ ''},''
     @ key ''backendDOMNodeId'' @ '':42}''"

definition sample_tree :: string where
  "sample_tree = ''{'' @ key ''nodes'' @ '':['' @ sample_node ''button'' ''OK'' @ '']}''"

text \<open>
  C8. The nodes that filter_and_format reports are the first ones, up to the capacity of the node
  list, that the specification keeps from the objects of the "nodes" array in document order, with
  the actionable ones numbered 1, 2, ... as far as the handle map reaches; a text without such an
  array is a protocol error that reports no node.
\<close>

theorem filter_nodes_refine:
  "case filter_and_format json nodes text hmap of (r, nodes', text', hmap') \<Rightarrow>
     (case node_array json of
        None \<Rightarrow> r = Inl ProtocolError \<and> fv_as_span nodes' = []
      | Some body \<Rightarrow> (\<exists>off. r = Inr off) \<and>
          fv_as_span nodes' = take (fv_capacity nodes)
            (number (min MAX_HANDLES (alen hmap)) 0 (select [] (objects body))))"
  by (auto simp: filter_and_format_run ax_run_nodes handle_limit_def Let_def split: option.splits)

text \<open>
  C27. The text that filter_and_format writes is the rendering of exactly the nodes it reports: the
  pieces of their lines in order, each whole or left out when it does not fit; the returned offset
  never passes the end of the buffer.
\<close>

theorem filter_text_refine:
  assumes "filter_and_format json nodes text hmap = (Inr off, nodes', text', hmap')"
  shows "off \<le> alen text \<and> alen text' = alen text \<and>
    apre text' off = fit_pieces (alen text) (concat (map node_pieces (fv_as_span nodes'))) \<and>
    (length (concat (concat (map node_pieces (fv_as_span nodes')))) \<le> alen text \<longrightarrow>
     apre text' off = concat (concat (map node_pieces (fv_as_span nodes'))))"
proof -
  obtain body where b: "node_array json = Some body"
    using assms by (auto simp: filter_and_format_run split: option.splits)
  let ?st = "\<lparr>ax_nodes = fv_clear nodes, ax_out = (text, 0),
    ax_map = acopy hmap 0 (replicate (alen hmap) 0), ax_cur = 0\<rparr>"
  have e: "ax_nodes (ax_run (objects body) ?st) = nodes'"
    "ax_out (ax_run (objects body) ?st) = (text', off)"
    using assms b by (auto simp: filter_and_format_run Let_def prod_eq_iff)
  have "foldl append_piece (text, 0) (concat (map node_pieces (fv_as_span nodes'))) = (text', off)"
    using ax_run_out [of ?st "objects body"] by (auto simp: e)
  from append_pieces [OF _ this] show ?thesis
    by (auto simp: fit_pieces_all)
qed

definition sample_run :: "nat result \<times> ax_node fvec \<times> char arr \<times> i32 arr" where
  "sample_run =
     filter_and_format sample_tree (fv_new 1 ax_node_init) (anew 40 CHR ''x'') (anew 2 0)"

lemma sample_run_result: "fst sample_run = Inr 34"
  by code_simp

lemma sample_run_map: "aget (snd (snd (snd sample_run))) 1 = 42"
  by code_simp

theorem filter_text_refine_witness:
  "34 \<le> (40 :: nat) \<and> fst sample_run = Inr 34 \<and>
   apre (fst (snd (snd sample_run))) 34
     = fit_pieces 40 (concat (map node_pieces (fv_as_span (fst (snd sample_run)))))"
  using filter_text_refine [of sample_tree "fv_new 1 ax_node_init" "anew 40 CHR ''x''" "anew 2 0" 34
      "fst (snd sample_run)" "fst (snd (snd sample_run))" "snd (snd (snd sample_run))"]
    sample_run_result
  by (simp add: sample_run_def prod_eq_iff)

lemma handles_sound:
  assumes "filter_and_format json nodes text hmap = (Inr off, nodes', text', hmap')"
  shows "(\<exists>k. filter (\<lambda>h. h \<noteq> 0) (map n_handle (fv_as_span nodes')) = [1 ..< k + 1]) \<and>
    (\<forall>n \<in> set (fv_as_span nodes'). n_handle n \<noteq> 0 \<longrightarrow>
       n_actionable n \<and> n_handle n < min MAX_HANDLES (alen hmap) \<and>
       aget hmap' (n_handle n) = n_backend n)"
proof -
  obtain body where b: "node_array json = Some body"
    using assms by (auto simp: filter_and_format_run split: option.splits)
  let ?st = "\<lparr>ax_nodes = fv_clear nodes, ax_out = (text, 0),
    ax_map = acopy hmap 0 (replicate (alen hmap) 0), ax_cur = 0\<rparr>"
  have e: "ax_nodes (ax_run (objects body) ?st) = nodes'" "ax_map (ax_run (objects body) ?st) = hmap'"
    using assms b by (auto simp: filter_and_format_run Let_def prod_eq_iff)
  let ?ns = "select [] (objects body)" and ?lim = "min MAX_HANDLES (alen hmap)"
  have n: "fv_as_span nodes' = take (fv_capacity nodes) (number ?lim 0 ?ns)"
    using ax_run_nodes [of ?st "objects body"] by (simp add: e handle_limit_def)
  have z: "\<forall>n \<in> set ?ns. n_handle n = 0" by (blast intro: select_handles_zero)
  have "ax_map_ok ?st" by (simp add: ax_map_ok_def)
  then have "ax_map_ok (ax_run (objects body) ?st)" by (intro ax_run_map_ok) simp_all
  then have "\<forall>n \<in> set (fv_as_span nodes'). n_handle n \<noteq> 0 \<longrightarrow>
      aget hmap' (n_handle n) = n_backend n"
    by (simp add: ax_map_ok_def e)
  moreover have "\<forall>n \<in> set (fv_as_span nodes'). n_handle n \<noteq> 0 \<longrightarrow>
      n_actionable n \<and> n_handle n < ?lim"
    using number_bounds [OF _ z] by (auto simp only: n dest: in_set_takeD)
  moreover obtain k where "filter (\<lambda>h. h \<noteq> 0) (map n_handle (fv_as_span nodes')) = [Suc 0 ..< Suc 0 + k]"
    using number_handles [OF z] unfolding n by blast
  ultimately show ?thesis by (auto intro!: exI [of _ k])
qed

text \<open>
  C17. Handles are sound: the non-zero handles of the reported nodes are 1, 2, ..., k in document
  order, only actionable nodes have one, all are below both the limit and the size of the handle
  map, and the map takes each to the DOM node it was given for.
\<close>

theorem filter_handles_sound:
  assumes "filter_and_format json nodes text hmap = (Inr off, nodes', text', hmap')"
  shows "(\<exists>k. filter (\<lambda>h. h \<noteq> 0) (map n_handle (fv_as_span nodes')) = [1 ..< k + 1]) \<and>
    (\<forall>n \<in> set (fv_as_span nodes'). n_handle n \<noteq> 0 \<longrightarrow>
       n_actionable n \<and> n_handle n < min MAX_HANDLES (alen hmap) \<and>
       aget hmap' (n_handle n) = n_backend n)"
  using assms by (rule handles_sound)

theorem filter_handles_sound_witness:
  "fst sample_run = Inr 34 \<and> aget (snd (snd (snd sample_run))) 1 = 42 \<and>
   (\<exists>k. filter (\<lambda>h. h \<noteq> 0) (map n_handle (fv_as_span (fst (snd sample_run)))) = [1 ..< k + 1])"
  using filter_handles_sound [of sample_tree "fv_new 1 ax_node_init" "anew 40 CHR ''x''" "anew 2 0" 34
      "fst (snd sample_run)" "fst (snd (snd sample_run))" "snd (snd (snd sample_run))"]
    sample_run_result sample_run_map
  by (simp add: sample_run_def prod_eq_iff)

text \<open>
  What is kept: every reported node comes from an object of the array that is not ignored and whose
  role is not a layout role; a static text has a name that no earlier reported node shows.
\<close>

definition clean_node :: "ax_node \<Rightarrow> bool" where
  "clean_node n \<longleftrightarrow> \<not> is_layout_role (n_role n) \<and> (n_role n = ''StaticText'' \<longrightarrow> n_name n \<noteq> [])"

lemma node_of_clean: "node_of ns obj = Some n \<Longrightarrow>
   clean_node n \<and> (n_role n = ''StaticText'' \<longrightarrow> \<not> duplicate_text ns (n_name n))"
  by (auto simp: node_of_def clean_node_def Let_def split: if_splits)

lemma select_clean:
  "i < length (select ns objs) \<Longrightarrow>
   clean_node (select ns objs ! i) \<and>
   (n_role (select ns objs ! i) = ''StaticText'' \<longrightarrow>
      \<not> duplicate_text (ns @ take i (select ns objs)) (n_name (select ns objs ! i)))"
proof (induction objs arbitrary: ns i)
  case Nil
  then show ?case by simp
next
  case (Cons obj objs)
  show ?case
  proof (cases "node_of ns obj")
    case None
    with Cons show ?thesis by simp
  next
    case (Some n)
    with Cons.IH [of _ "ns @ [n]"] Cons.prems node_of_clean [OF Some] show ?thesis
      by (cases i) auto
  qed
qed

lemma number_nth:
  "i < length ns \<Longrightarrow> \<exists>h. number lim k ns ! i = (ns ! i)\<lparr>n_handle := h\<rparr>"
proof (induction ns arbitrary: i k)
  case Nil
  then show ?case by simp
next
  case (Cons n ns)
  have "\<exists>h. n = n\<lparr>n_handle := h\<rparr>" by (rule exI [of _ "n_handle n"]) simp
  with Cons show ?case by (cases i) auto
qed

lemma length_number [simp]: "length (number lim k ns) = length ns"
  by (induction ns arbitrary: k) auto

lemma duplicate_text_number:
  "duplicate_text (take i (number lim k ns)) x = duplicate_text (take i ns) x"
proof (induction ns arbitrary: i k)
  case Nil
  then show ?case by simp
next
  case (Cons n ns)
  then show ?case by (cases i) (auto simp: duplicate_text_def)
qed

text \<open>
  C28. No noise and no repeated text: no reported node has a layout role, every reported static text
  has a name, and that name is not the name or value of a node reported before it.
\<close>

theorem filter_keeps_clean:
  assumes "filter_and_format json nodes text hmap = (Inr off, nodes', text', hmap')"
    and "i < fv_size nodes'"
  shows "clean_node (fv_as_span nodes' ! i) \<and>
    (n_role (fv_as_span nodes' ! i) = ''StaticText'' \<longrightarrow>
       (\<forall>j < i. n_name (fv_as_span nodes' ! j) \<noteq> n_name (fv_as_span nodes' ! i) \<and>
                n_value (fv_as_span nodes' ! j) \<noteq> n_name (fv_as_span nodes' ! i)))"
proof -
  obtain body where b: "node_array json = Some body"
    using assms(1) by (auto simp: filter_and_format_run split: option.splits)
  let ?st = "\<lparr>ax_nodes = fv_clear nodes, ax_out = (text, 0),
    ax_map = acopy hmap 0 (replicate (alen hmap) 0), ax_cur = 0\<rparr>"
  let ?ns = "select [] (objects body)" and ?lim = "min MAX_HANDLES (alen hmap)"
  let ?ms = "number ?lim 0 ?ns"
  have "ax_nodes (ax_run (objects body) ?st) = nodes'"
    using assms(1) b by (auto simp: filter_and_format_run Let_def prod_eq_iff)
  then have n: "fv_as_span nodes' = take (fv_capacity nodes) ?ms"
    using ax_run_nodes [of ?st "objects body"] by (simp add: handle_limit_def)
  have i: "i < fv_capacity nodes" "i < length ?ns"
    using assms(2) n by (metis length_fv_as_span length_take length_number min_less_iff_conj)+
  obtain h where h: "?ms ! i = (?ns ! i)\<lparr>n_handle := h\<rparr>"
    using number_nth [OF i(2)] by blast
  have "clean_node (?ns ! i)"
    and d: "n_role (?ns ! i) = ''StaticText'' \<longrightarrow> \<not> duplicate_text (take i ?ns) (n_name (?ns ! i))"
    using select_clean [OF i(2)] by simp_all
  then have "clean_node (?ms ! i)"
    and "n_role (?ms ! i) = ''StaticText'' \<longrightarrow> \<not> duplicate_text (take i ?ms) (n_name (?ms ! i))"
    using h by (auto simp: clean_node_def duplicate_text_number)
  moreover have "take i ?ms ! j = ?ms ! j \<and> ?ms ! j \<in> set (take i ?ms)" if "j < i" for j
    using that i(2) by (metis length_number length_take min.absorb4 nth_mem nth_take)
  ultimately show ?thesis
    using i by (auto simp: n duplicate_text_def)
qed

theorem filter_keeps_clean_witness:
  "clean_node (fv_as_span (fst (snd sample_run)) ! 0) \<and> fv_size (fst (snd sample_run)) = 1"
proof -
  have s: "fv_size (fst (snd sample_run)) = 1" by code_simp
  then show ?thesis
    using filter_keeps_clean [of sample_tree "fv_new 1 ax_node_init" "anew 40 CHR ''x''" "anew 2 0" 34
      "fst (snd sample_run)" "fst (snd (snd sample_run))" "snd (snd (snd sample_run))" 0]
      sample_run_result
    by (simp add: sample_run_def prod_eq_iff)
qed

section \<open>Objects and fields of well-formed JSON\<close>

text \<open>A complete object: the scan over it ends at its last character, whatever follows.\<close>

definition json_object :: "string \<Rightarrow> bool" where
  "json_object obj \<longleftrightarrow> obj \<noteq> [] \<and> hd obj = CHR ''{'' \<and>
     scan_object 0 False False (obj @ '','') = length obj"

definition json_array :: "string list \<Rightarrow> string" where
  "json_array objs = concat (map (\<lambda>obj. obj @ '','') objs) @ '']''"

lemma scan_object_append:
  "scan_object d s e (obj @ [c]) = length obj \<Longrightarrow> scan_object d s e (obj @ r) = length obj"
proof (induction obj arbitrary: d s e)
  case Nil
  then show ?case by (auto split: if_splits)
next
  case (Cons a obj)
  then show ?case by (auto split: if_splits)
qed

lemma objects_cong:
  "dropWhile (\<lambda>c. c \<noteq> CHR ''{'' \<and> c \<noteq> CHR '']'') r = dropWhile (\<lambda>c. c \<noteq> CHR ''{'' \<and> c \<noteq> CHR '']'') r' \<Longrightarrow>
   objects r = objects r'"
  by (subst (1 2) objects.simps) (simp only:)

text \<open>
  The walk visits exactly the objects of the array, in order, and stops at its end, whatever the
  document holds behind it: braces and brackets inside strings and nested objects do not confuse it.
\<close>

lemma objects_of_array:
  assumes "\<forall>obj \<in> set objs. json_object obj"
  shows "objects (json_array objs @ rest) = objs"
  using assms
proof (induction objs)
  case Nil
  show ?case by (subst objects.simps) (simp add: json_array_def)
next
  case (Cons obj objs)
  then obtain cs where cs: "obj = CHR ''{'' # cs"
    by (cases obj) (simp_all add: json_object_def)
  let ?r = "'','' @ json_array objs @ rest"
  from Cons.prems have "json_object obj" by simp
  then have k: "scan_object 0 False False (obj @ ?r) = length obj"
    unfolding json_object_def by (blast intro: scan_object_append)
  have "objects ('','' @ json_array objs @ rest) = objects (json_array objs @ rest)"
    by (rule objects_cong) simp
  then have "objects ?r = objs" using Cons by simp
  moreover have "objects (obj @ ?r) = obj # objects ?r"
  proof -
    have "dropWhile (\<lambda>c. c \<noteq> CHR ''{'' \<and> c \<noteq> CHR '']'') (obj @ ?r) = obj @ ?r" by (simp add: cs)
    moreover have "obj @ ?r \<noteq> []" "hd (obj @ ?r) \<noteq> CHR '']''" by (simp_all add: cs)
    moreover have "take (length obj) (obj @ ?r) = obj" "drop (length obj) (obj @ ?r) = ?r" by simp_all
    ultimately show ?thesis
      by (subst objects.simps) (simp only: Let_def k if_False simp_thms)
  qed
  ultimately show ?case by (simp add: json_array_def)
qed

text \<open>A string body in which every quote is escaped and no escape dangles.\<close>

fun escaped :: "bool \<Rightarrow> string \<Rightarrow> bool" where
  "escaped e [] \<longleftrightarrow> \<not> e"
| "escaped e (c # cs) \<longleftrightarrow>
     (if e then escaped False cs
      else if c = BACKSLASH then escaped True cs
      else c \<noteq> QUOTE \<and> escaped False cs)"

lemma str_end_loop_escaped:
  "escaped e body \<Longrightarrow> str_end_loop e (body @ QUOTE # r) i = i + length body"
proof (induction body arbitrary: e i)
  case Nil
  then show ?case by (simp add: QUOTE_def BACKSLASH_def)
next
  case (Cons c body)
  then show ?case by (auto split: if_splits)
qed

lemma quoted_at_escaped:
  assumes "escaped False body"
  shows "quoted_at (p @ QUOTE # body @ QUOTE # r) (length p) = body"
proof -
  have "drop (Suc (length p)) (p @ QUOTE # body @ QUOTE # r) = body @ QUOTE # r"
    by simp
  then show ?thesis
    using assms by (simp add: quoted_at_def char_at_def substr_def str_end_loop_escaped)
qed

lemma length_key [simp]: "length (key s) = length s + 2"
  by (simp add: key_def)

text \<open>A colon right behind a position, and no blank behind the colon.\<close>

lemma sv_find_colon: "sv_find (p @ CHR '':'' # r) '':'' (length p) = Some (length p)"
  by (rule sv_find_hit) (simp_all add: starts_with_def)

lemma field_start_eq:
  assumes "sv_find (p @ f) f 0 = Some (length p)" and "\<not> ws3 c"
  shows "field_start (p @ f @ CHR '':'' # c # r) f = Some (length p + length f + 1)"
proof -
  have "sv_find (p @ f @ CHR '':'' # c # r) '':'' (length (p @ f)) = Some (length (p @ f))"
    using sv_find_colon [of "p @ f" "c # r"] by simp
  moreover have "skip_from ws3 (p @ f @ CHR '':'' # c # r) (length p + length f + 1)
      = length p + length f + 1"
    using assms(2) by (intro skip_from_stop) (simp_all add: nth_append)
  ultimately show ?thesis
    using sv_find_prefix [OF assms(1)] by (simp add: field_start_def)
qed

lemma quoted_at_key:
  "escaped False body \<Longrightarrow> quoted_at (a @ key body @ b) (length a) = body"
  using quoted_at_escaped [of body a b] by (simp add: key_def)

lemma extract_field_plain:
  assumes "sv_find (p @ key f) (key f) 0 = Some (length p)" and "escaped False body"
  shows "extract_field_str (p @ key f @ '':'' @ key body @ r) (key f) = body"
proof -
  let ?o = "p @ key f @ '':'' @ key body @ r"
  have "field_start ?o (key f) = Some (length p + length (key f) + 1)"
    using field_start_eq [OF assms(1), of QUOTE "body @ QUOTE # r"]
    by (simp add: key_def ws3_def QUOTE_def)
  moreover have "char_at ?o (length p + length (key f) + 1) = Some QUOTE"
    by (simp add: char_at_def nth_append key_def)
  ultimately show ?thesis
    using quoted_at_key [OF assms(2), of "p @ key f @ '':''" r]
    by (simp add: extract_field_str_def QUOTE_def)
qed

lemma sv_find_key_brace:
  assumes "sv_find (mid @ key s) (key s) 0 = Some (length mid)"
  shows "sv_find ((CHR ''{'' # mid) @ key s) (key s) 0 = Some (length (CHR ''{'' # mid))"
proof (rule sv_find_eqI)
  fix j assume j: "j < length (CHR ''{'' # mid)"
  show "\<not> occurs_at ((CHR ''{'' # mid) @ key s) (key s) j"
  proof (cases j)
    case 0
    then show ?thesis by (simp add: occurs_at_def starts_with_def key_def QUOTE_def)
  next
    case (Suc j')
    then have "\<not> occurs_at (mid @ key s) (key s) j'" using j sv_find_SomeD(3) [OF assms] by simp
    then show ?thesis by (simp add: Suc occurs_at_def)
  qed
qed (simp_all add: occurs_at_def)

lemma extract_field_nested:
  assumes "sv_find (p @ key f) (key f) 0 = Some (length p)" and "escaped False body"
    and "sv_find (mid @ key ''value'') (key ''value'') 0 = Some (length mid)"
  shows "extract_field_str (p @ key f @ '':{'' @ mid @ key ''value'' @ '':'' @ key body @ r) (key f)
         = body"
proof -
  let ?a = "p @ key f @ '':{''" and ?b = "key ''value''"
  let ?n = "?a @ mid @ ?b @ '':'' @ key body @ r"
  let ?i = "length p + length (key f) + 1"
  have s: "field_start ?n (key f) = Some ?i"
    using field_start_eq [OF assms(1), of "CHR ''{''" "mid @ ?b @ '':'' @ key body @ r"]
    by (simp add: ws3_def)
  have c: "char_at ?n ?i = Some (CHR ''{'')"
    by (simp add: char_at_def nth_append)
  have o: "?n = (p @ key f @ '':'') @ (CHR ''{'' # mid) @ ?b @ '':'' @ key body @ r" by simp
  from sv_find_context [OF sv_find_key_brace [OF assms(3)], of "p @ key f @ '':''" "'':'' @ key body @ r"]
  have v: "sv_find ?n ?b ?i = Some (?i + 1 + length mid)"
    unfolding o by simp
  let ?j = "?i + 1 + length mid + 7"
  have l: "length (?a @ mid @ ?b) = ?j" by (simp add: key_def)
  have "sv_find ?n '':'' ?j = Some ?j"
    using sv_find_colon [of "?a @ mid @ ?b" "key body @ r"] unfolding l
    by (simp only: append_assoc append_Cons append_Nil)
  moreover have "skip_from ws2 ?n (?j + 1) = ?j + 1"
    by (rule skip_from_stop) (simp_all add: nth_append key_def ws2_def QUOTE_def)
  ultimately have "nested_value ?n ?i = Some (?j + 1)"
    using v by (simp add: nested_value_def)
  moreover have "length (?a @ mid @ ?b @ '':'') = ?j + 1" by (simp add: key_def)
  then have "quoted_at ?n (?j + 1) = body"
    using quoted_at_key [OF assms(2), of "?a @ mid @ ?b @ '':''" r]
    by (simp only: append_assoc append_Cons append_Nil)
  ultimately show ?thesis
    using s c by (simp add: extract_field_str_def)
qed

text \<open>
  C29. Reading back a field: from an object in which the field's name first occurs as its key,
  extract_field_str gives the string value written there (its escapes kept as they are), both for a
  plain string and for a nested object that carries it under "value".
\<close>

theorem extract_field_str_roundtrip:
  assumes "sv_find (p @ key f) (key f) 0 = Some (length p)" and "escaped False body"
    and "sv_find (mid @ key ''value'') (key ''value'') 0 = Some (length mid)"
  shows "extract_field_str (p @ key f @ '':'' @ key body @ r) (key f) = body \<and>
    extract_field_str (p @ key f @ '':{'' @ mid @ key ''value'' @ '':'' @ key body @ r) (key f)
      = body"
  using extract_field_plain [OF assms(1,2)] extract_field_nested [OF assms] by simp

theorem extract_field_str_roundtrip_witness:
  "extract_field_str (''{'' @ key ''name'' @ '':'' @ key ''OK'' @ ''}'') (key ''name'') = ''OK'' \<and>
   extract_field_str (''{'' @ key ''name'' @ '':{'' @ (key ''type'' @ '':1,'') @ key ''value'' @ '':''
     @ key ''OK'' @ ''}}'') (key ''name'') = ''OK''"
proof -
  have "sv_find (''{'' @ key ''name'') (key ''name'') 0 = Some (length ''{'')" by code_simp
  moreover have "escaped False ''OK''" by code_simp
  moreover have "sv_find ((key ''type'' @ '':1,'') @ key ''value'') (key ''value'') 0
      = Some (length (key ''type'' @ '':1,''))" by code_simp
  ultimately show ?thesis
    using extract_field_str_roundtrip [of "''{''" "''name''" "''OK''" "key ''type'' @ '':1,''"]
    by (simp del: append_Cons append_Nil append_assoc)
qed


definition typed_node :: string where
  "typed_node =
     ''{'' @ key ''role'' @ '':{'' @ key ''value'' @ '':'' @ key ''textbox'' @ ''},''
     @ key ''value'' @ '':{'' @ key ''value'' @ '':'' @ key ''typed'' @ ''}}''"


end
