(* ===== verification/Cdp_Bridge.thy ===== *)
theory Cdp_Bridge
  imports Process Ax_Filter
begin

text \<open>
  CdpBridge of include/axiom/cdp.hpp: the browser is driven through two pipes that carry JSON messages
  ended by a null byte. The operations thread the bridge and the event log; a member function that
  returns an error leaves the bridge as it was changed so far. snprintf into a fixed buffer is
  followed in the code by a view of the length that the text would have had; \<open>fmt_view\<close> is Fault
  where that view leaves the buffer.
\<close>

section \<open>The bridge\<close>

definition CDP_BUFFER_SIZE :: nat where
  "CDP_BUFFER_SIZE = 131072"

definition SESSION_ID_SIZE :: nat where
  "SESSION_ID_SIZE = 64"

record bridge =
  br_to :: int
  br_from :: int
  br_pid :: int
  br_next :: int
  br_started :: bool
  br_session :: string
  br_handles :: "i32 arr"

definition bridge_init :: bridge where
  "bridge_init = \<lparr>br_to = - 1, br_from = - 1, br_pid = - 1, br_next = 1, br_started = False,
     br_session = [], br_handles = anew MAX_HANDLES 0\<rparr>"

type_synonym 'a bm = "bridge \<Rightarrow> log \<Rightarrow> ('a result \<times> bridge \<times> log) run"

definition bm_return :: "'a result \<Rightarrow> 'a bm" where
  "bm_return x b log = Done (x, b, log)"

definition bm_bind :: "'a bm \<Rightarrow> ('a \<Rightarrow> 'b bm) \<Rightarrow> 'b bm" where
  "bm_bind m f b log =
     run_bind (m b log) (\<lambda>(r, b', log').
       case r of Inl e \<Rightarrow> Done (Inl e, b', log') | Inr x \<Rightarrow> f x b' log')"

text \<open>The result is cast to void: what follows runs after an error as well.\<close>

definition bm_ignore :: "'a bm \<Rightarrow> 'b bm \<Rightarrow> 'b bm" where
  "bm_ignore m k b log = run_bind (m b log) (\<lambda>(r, b', log'). k b' log')"

definition bm_get :: "(bridge \<Rightarrow> 'b bm) \<Rightarrow> 'b bm" where
  "bm_get f b log = f b b log"

definition bm_event :: "event \<Rightarrow> 'b bm \<Rightarrow> 'b bm" where
  "bm_event ev k b log = k b (log @ [ev])"

section \<open>Texts\<close>

definition dec_int :: "int \<Rightarrow> string" where
  "dec_int i = (if i < 0 then CHR ''-'' # decimal (nat (- i)) else decimal (nat i))"

definition fmt_view :: "nat \<Rightarrow> string \<Rightarrow> string run" where
  "fmt_view n text =
     (if length text < n then Done text
      else if length text = n then Done (take (n - 1) text @ [CHR 0x00])
      else Fault)"

text \<open>A formatted command: the error is the branch for a length that is not positive.\<close>

definition fmt_cmd :: "nat \<Rightarrow> string \<Rightarrow> string bm" where
  "fmt_cmd n text b log =
     (if text = [] then Done (Inl ProtocolError, b, log)
      else run_bind (fmt_view n text) (\<lambda>cmd. Done (Inr cmd, b, log)))"

definition str_field :: "string \<Rightarrow> string \<Rightarrow> string" where
  "str_field k v = key k @ '':'' @ key v"

definition id_field :: "int \<Rightarrow> string" where
  "id_field i = key ''id'' @ '':'' @ dec_int i"

definition session_cmd_text :: "int \<Rightarrow> string \<Rightarrow> string \<Rightarrow> string \<Rightarrow> string" where
  "session_cmd_text i session meth params =
     ''{'' @ id_field i @ '','' @ str_field ''sessionId'' (c_str session) @ '','' @
     str_field ''method'' (c_str meth) @ '','' @ key ''params'' @ '':'' @ c_str params @ ''}''"

definition get_targets_text :: "int \<Rightarrow> string" where
  "get_targets_text i = ''{'' @ id_field i @ '','' @ str_field ''method'' ''Target.getTargets'' @ ''}''"

definition attach_text :: "int \<Rightarrow> string \<Rightarrow> string" where
  "attach_text i target =
     ''{'' @ id_field i @ '','' @ str_field ''method'' ''Target.attachToTarget'' @ '','' @
     key ''params'' @ '':{'' @ str_field ''targetId'' (c_str target) @ '','' @ key ''flatten'' @ '':true}}''"

definition axtree_text :: "int \<Rightarrow> string \<Rightarrow> string" where
  "axtree_text i session =
     ''{'' @ id_field i @ '','' @ str_field ''sessionId'' (c_str session) @ '','' @
     str_field ''method'' ''Accessibility.getFullAXTree'' @ ''}''"

definition node_params :: "i32 \<Rightarrow> string" where
  "node_params backend = ''{'' @ key ''backendNodeId'' @ '':'' @ dec_int (sint backend) @ ''}''"

definition call_text :: "int \<Rightarrow> string \<Rightarrow> string \<Rightarrow> string \<Rightarrow> string" where
  "call_text i session object rest =
     ''{'' @ id_field i @ '','' @ str_field ''sessionId'' (c_str session) @ '','' @
     str_field ''method'' ''Runtime.callFunctionOn'' @ '','' @ key ''params'' @ '':{'' @
     str_field ''objectId'' (c_str object) @ '','' @ key ''functionDeclaration'' @ '':'' @ rest"

definition click_js :: string where
  "click_js = ''function() { this.scrollIntoView({block: 'center'}); this.click(); }''"

definition type_js :: string where
  "type_js = ''function(v) { this.focus(); this.value = v; this.dispatchEvent(new Event('input', {bubbles:true})); this.dispatchEvent(new Event('change', {bubbles:true})); }''"

definition click_rest :: string where
  "click_rest = key click_js @ ''}}''"

definition type_rest :: "string \<Rightarrow> string" where
  "type_rest text = key type_js @ '','' @ key ''arguments'' @ '':[{'' @ str_field ''value'' (c_str text) @ ''}]}}''"

definition scroll_text :: "int \<Rightarrow> string \<Rightarrow> i32 \<Rightarrow> string" where
  "scroll_text i session delta =
     ''{'' @ id_field i @ '','' @ str_field ''sessionId'' (c_str session) @ '','' @
     str_field ''method'' ''Runtime.evaluate'' @ '','' @ key ''params'' @ '':{'' @
     str_field ''expression'' (''window.scrollBy(0, '' @ dec_int (sint delta) @ '')'') @ ''}}''"

section \<open>Sending and receiving\<close>

text \<open>next_req_id_++ on a signed int: undefined when it overflows.\<close>

definition take_req_id :: "int bm" where
  "take_req_id b log =
     (if br_next b < 2 ^ 31 - 1 then Done (Inr (br_next b), b\<lparr>br_next := br_next b + 1\<rparr>, log) else Fault)"

function write_pipe_loop :: "env \<Rightarrow> int \<Rightarrow> byte list \<Rightarrow> log \<Rightarrow> bool \<times> log" where
  "write_pipe_loop env fd data log =
     (if data = [] then (True, log)
      else case sys_write env fd data log of
        (Err e, log1) \<Rightarrow> (False, log1)
      | (Ok n, log1) \<Rightarrow> if n = 0 then (False, log1) else write_pipe_loop env fd (drop n data) log1)"
  by pat_completeness auto
termination
  by (relation "measure (\<lambda>(env, fd, data, log). length data)") auto

declare write_pipe_loop.simps [simp del]

definition write_pipe :: "env \<Rightarrow> string \<Rightarrow> unit bm" where
  "write_pipe env cmd b log =
     (if br_to b < 0 then Done (Inl IoError, b, log)
      else case write_pipe_loop env (br_to b) (map to_byte cmd) log of
        (False, log1) \<Rightarrow> Done (Inl IoError, b, log1)
      | (True, log1) \<Rightarrow>
          (case sys_write env (br_to b) [0] log1 of
             (Ok n, log2) \<Rightarrow> Done (if n = 1 then Inr () else Inl IoError, b, log2)
           | (Err e, log2) \<Rightarrow> Done (Inl IoError, b, log2)))"

definition id_needle :: "int \<Rightarrow> string" where
  "id_needle req_id = take 31 (id_field req_id)"

text \<open>
  One byte at a time, until a message that holds the needle is complete; the clock is read and the
  pipe polled before every byte, and bytes that do not fit into the buffer are dropped.
\<close>

primrec read_msg_loop ::
  "env \<Rightarrow> nat \<Rightarrow> int \<Rightarrow> string \<Rightarrow> nat \<Rightarrow> string \<Rightarrow> log \<Rightarrow> (string result \<times> log) run" where
  "read_msg_loop env 0 fd needle start rx log = Out_Of_Fuel"
| "read_msg_loop env (Suc fuel) fd needle start rx log =
     run_bind (run_of (remaining_ms 2000 (int (e_clock_ms env log) - int start)))
       (\<lambda>rem.
          if rem \<le> 0 then Done (Inl IoError, log @ [EvClock])
          else case sys_poll env fd rem (log @ [EvClock]) of
            (False, log2) \<Rightarrow> Done (Inl IoError, log2)
          | (True, log2) \<Rightarrow>
              (case sys_read env fd 1 log2 of
                 (Ok (c # _), log3) \<Rightarrow>
                   if c = 0 then
                     (if needle \<noteq> [] \<and> sv_find rx needle 0 \<noteq> None then Done (Inr rx, log3)
                      else read_msg_loop env fuel fd needle start [] log3)
                   else read_msg_loop env fuel fd needle start
                          (if length rx + 1 < CDP_BUFFER_SIZE then rx @ [to_char c] else rx) log3
               | (_, log3) \<Rightarrow> Done (Inl IoError, log3)))"

definition read_msg_matching :: "env \<Rightarrow> int \<Rightarrow> string bm" where
  "read_msg_matching env req_id b log =
     (if br_from b < 0 then Done (Inl IoError, b, log)
      else run_bind (read_msg_loop env (e_fuel env) (br_from b) (id_needle req_id)
                       (e_clock_ms env log) [] (log @ [EvClock]))
        (\<lambda>(r, log1). Done (r, b, log1)))"

definition send_session_cmd :: "env \<Rightarrow> string \<Rightarrow> string \<Rightarrow> int bm" where
  "send_session_cmd env meth params =
     bm_bind take_req_id (\<lambda>req_id. bm_get (\<lambda>b.
     bm_bind (fmt_cmd 512 (session_cmd_text req_id (br_session b) meth params)) (\<lambda>cmd.
     bm_bind (write_pipe env cmd) (\<lambda>_.
     bm_ignore (read_msg_matching env req_id) (bm_return (Inr req_id))))))"

section \<open>Attaching and starting\<close>

fun rfind_loop :: "string \<Rightarrow> string \<Rightarrow> nat \<Rightarrow> nat option" where
  "rfind_loop s needle 0 = (if occurs_at s needle 0 then Some 0 else None)"
| "rfind_loop s needle (Suc i) =
     (if occurs_at s needle (Suc i) then Some (Suc i) else rfind_loop s needle i)"

definition sv_rfind :: "string \<Rightarrow> string \<Rightarrow> nat \<Rightarrow> nat option" where
  "sv_rfind s needle pos =
     (if length s < length needle then None
      else rfind_loop s needle (min pos (length s - length needle)))"

text \<open>The target id in the answer to getTargets: the one before the first page, or after it.\<close>

definition page_target :: "string \<Rightarrow> string option" where
  "page_target resp =
     (case (case sv_find resp (str_field ''type'' ''page'') 0 of
              Some p \<Rightarrow> Some p
            | None \<Rightarrow> sv_find resp (key ''type'' @ '': '' @ key ''page'') 0) of
        None \<Rightarrow> None
      | Some page_pos \<Rightarrow>
          (case (case sv_rfind resp (key ''targetId'') page_pos of
                   Some p \<Rightarrow> Some p
                 | None \<Rightarrow> sv_find resp (key ''targetId'') page_pos) of
             None \<Rightarrow> None
           | Some tid_pos \<Rightarrow>
               (case extract_field_str (drop tid_pos resp) (key ''targetId'') of
                  [] \<Rightarrow> None
                | target_id \<Rightarrow> Some target_id)))"

definition set_session :: "string \<Rightarrow> unit bm" where
  "set_session session b log =
     Done (Inr (), b\<lparr>br_session := take (SESSION_ID_SIZE - 1) session\<rparr>, log)"

definition attach_to_page :: "env \<Rightarrow> unit bm" where
  "attach_to_page env =
     bm_bind take_req_id (\<lambda>req_id.
     bm_bind (fmt_cmd 128 (get_targets_text req_id)) (\<lambda>cmd.
     bm_bind (write_pipe env cmd) (\<lambda>_.
     bm_bind (read_msg_matching env req_id) (\<lambda>resp.
       case page_target resp of
         None \<Rightarrow> bm_return (Inl ProtocolError)
       | Some target_id \<Rightarrow>
           bm_bind take_req_id (\<lambda>attach_id.
           bm_bind (fmt_cmd 256 (attach_text attach_id target_id)) (\<lambda>cmd2.
           bm_bind (write_pipe env cmd2) (\<lambda>_.
           bm_bind (read_msg_matching env attach_id) (\<lambda>resp2.
             case extract_field_str resp2 (key ''sessionId'') of
               [] \<Rightarrow> bm_return (Inl ProtocolError)
             | session \<Rightarrow>
                 bm_bind (set_session session) (\<lambda>_.
                 bm_ignore (send_session_cmd env ''Accessibility.enable'' ''{}'')
                  (bm_ignore (send_session_cmd env ''Page.enable'' ''{}'')
                    (bm_ignore (send_session_cmd env ''DOM.enable'' ''{}'')
                      (bm_return (Inr ())))))))))))))"

text \<open>What the browser's process does before it becomes the browser.\<close>

definition chrome_args :: "string \<Rightarrow> string list" where
  "chrome_args url =
     [''chromium'', ''--headless=new'', ''--remote-debugging-pipe'', ''--no-sandbox'', ''--disable-gpu'',
      ''--disable-software-rasterizer'', ''--disable-dev-shm-usage'',
      ''--user-data-dir=/tmp/axiom-chrome-profile'', c_str (take 511 url)]"

definition chrome_child :: "env \<Rightarrow> string \<Rightarrow> string \<Rightarrow> int \<times> int \<Rightarrow> int \<times> int \<Rightarrow> log \<Rightarrow> log" where
  "chrome_child env path url to_chrome from_chrome log =
     (let in_fd = e_dupfd env log (fst to_chrome);
          l1 = log @ [EvFile (Call_Fcntl (fst to_chrome) ''F_DUPFD_CLOEXEC'')];
          out_fd = e_dupfd env l1 (snd from_chrome);
          l2 = l1 @ [EvFile (Call_Fcntl (snd from_chrome) ''F_DUPFD_CLOEXEC'')];
          l3 = sys_close (snd from_chrome) (sys_close (fst from_chrome)
                (sys_close (snd to_chrome) (sys_close (fst to_chrome) l2)));
          l4 = l3 @ [EvProcess (Call_Dup2 in_fd 3)]
      in if \<not> e_dup2 env l3 in_fd 3 then l4
         else let l5 = l4 @ [EvProcess (Call_Dup2 out_fd 4)]
         in if \<not> e_dup2 env l4 out_fd 4 then l5
         else let l6 = sys_close out_fd (sys_close in_fd l5) @
                         [EvFile (Call_Fcntl 3 ''F_SETFD''), EvFile (Call_Fcntl 4 ''F_SETFD'')];
                  l7 = (case e_open env l6 ''/dev/null'' of
                          Ok null \<Rightarrow> sys_close null (l6 @ [EvOpen ''/dev/null'' Open_Write 0,
                            EvProcess (Call_Dup2 null 1), EvProcess (Call_Dup2 null 2)])
                        | Err e \<Rightarrow> l6 @ [EvOpen ''/dev/null'' Open_Write 0])
         in l7 @ [EvProcess (Call_Exec path (chrome_args url) None)])"

definition chrome_paths :: "string list" where
  "chrome_paths = [''/usr/lib/chromium/chromium'', ''/usr/bin/chromium'', ''/usr/bin/chromium-browser'']"

fun find_chrome :: "env \<Rightarrow> string list \<Rightarrow> log \<Rightarrow> string option \<times> log" where
  "find_chrome env [] log = (None, log)"
| "find_chrome env (p # ps) log =
     (if e_access env log p then (Some p, log @ [EvFile (Call_Access p)])
      else find_chrome env ps (log @ [EvFile (Call_Access p)]))"

text \<open>
  The parent's side of start. When the second pipe fails, the first one stays open, as in the code.
\<close>

definition bridge_start :: "env \<Rightarrow> string \<Rightarrow> unit bm" where
  "bridge_start env url b log =
     (if br_started b then Done (Inr (), b, log)
      else case find_chrome env chrome_paths log of
        (None, l1) \<Rightarrow> Done (Inl NotFound, b, l1)
      | (Some path, l1) \<Rightarrow>
          let l2 = l1 @ [EvProcess Call_Pipe]; l3 = l2 @ [EvProcess Call_Pipe] in
          case e_pipe env l1 of
            None \<Rightarrow> Done (Inl IoError, b, l2)
          | Some (to0, to1) \<Rightarrow>
              (case e_pipe env l2 of
                 None \<Rightarrow> Done (Inl IoError, b, l3)
               | Some (from0, from1) \<Rightarrow>
                   let pid = e_fork env l3; l4 = l3 @ [EvProcess Call_Fork] in
                   if pid < 0
                   then Done (Inl ProcessSpawnError, b,
                          sys_close from1 (sys_close from0 (sys_close to1 (sys_close to0 l4))))
                   else attach_to_page env
                          (b\<lparr>br_to := to1, br_from := from0, br_pid := pid, br_started := True\<rparr>)
                          (sys_close from1 (sys_close to0 l4) @ [EvSleep 500000])))"

section \<open>Actions\<close>

definition navigate :: "env \<Rightarrow> string \<Rightarrow> unit bm" where
  "navigate env url b log =
     (if \<not> br_started b then bridge_start env url b log
      else bm_bind (send_session_cmd env ''Page.navigate''
                     (take 1023 (''{'' @ str_field ''url'' (c_str url) @ ''}'')))
             (\<lambda>_. bm_event (EvSleep 100000) (bm_return (Inr ()))) b log)"

text \<open>The answer to getFullAXTree, from a browser that is started first when there is none.\<close>

definition axtree_reply :: "env \<Rightarrow> string bm" where
  "axtree_reply env =
     bm_get (\<lambda>b0. bm_bind (if br_started b0 then bm_return (Inr ()) else bridge_start env ''about:blank'') (\<lambda>_.
     bm_bind take_req_id (\<lambda>req_id. bm_get (\<lambda>b.
     bm_bind (fmt_cmd 256 (axtree_text req_id (br_session b))) (\<lambda>cmd.
     bm_bind (write_pipe env cmd) (\<lambda>_. read_msg_matching env req_id))))))"

definition get_axtree ::
  "env \<Rightarrow> ax_node fvec \<Rightarrow> char arr \<Rightarrow> bridge \<Rightarrow> log \<Rightarrow>
   (nat result \<times> ax_node fvec \<times> char arr \<times> bridge \<times> log) run" where
  "get_axtree env nodes text b log =
     run_bind (axtree_reply env b log)
       (\<lambda>(r, b1, log1). case r of
          Inl e \<Rightarrow> Done (Inl e, nodes, text, b1, log1)
        | Inr json \<Rightarrow>
            (case filter_and_format json nodes text (br_handles b1) of
               (r', nodes', text', hmap) \<Rightarrow>
                 Done (r', nodes', text', b1\<lparr>br_handles := hmap\<rparr>, log1)))"

text \<open>
  The DOM node of a handle, and the resolution of the node to a script object: what click and
  type_text have in common.
\<close>

definition handle_node :: "bridge \<Rightarrow> u32 \<Rightarrow> i32 option" where
  "handle_node b handle =
     (if handle = 0 \<or> unat handle \<ge> alen (br_handles b) then None
      else if aget (br_handles b) (unat handle) = 0 then None
      else Some (aget (br_handles b) (unat handle)))"

definition resolve_node :: "env \<Rightarrow> i32 \<Rightarrow> string bm" where
  "resolve_node env backend_id =
     bm_bind (fmt_cmd 128 (node_params backend_id)) (\<lambda>params.
     bm_bind take_req_id (\<lambda>req_id. bm_get (\<lambda>b.
     bm_bind (fmt_cmd 256 (session_cmd_text req_id (br_session b) ''DOM.resolveNode'' params)) (\<lambda>cmd.
     bm_bind (write_pipe env cmd) (\<lambda>_.
     bm_bind (read_msg_matching env req_id) (\<lambda>resp.
       case extract_field_str resp (key ''objectId'') of
         [] \<Rightarrow> bm_return (Inl ProtocolError)
       | object_id \<Rightarrow> bm_return (Inr object_id)))))))"

definition call_node :: "env \<Rightarrow> nat \<Rightarrow> i32 \<Rightarrow> string \<Rightarrow> unit bm" where
  "call_node env n backend_id rest =
     bm_bind (resolve_node env backend_id) (\<lambda>object_id.
     bm_bind take_req_id (\<lambda>call_id. bm_get (\<lambda>b.
     bm_bind (fmt_cmd n (call_text call_id (br_session b) object_id rest)) (\<lambda>cmd.
     bm_bind (write_pipe env cmd) (\<lambda>_.
     bm_ignore (read_msg_matching env call_id) (bm_return (Inr ())))))))"

definition click :: "env \<Rightarrow> u32 \<Rightarrow> unit bm" where
  "click env handle =
     bm_get (\<lambda>b. case handle_node b handle of
       None \<Rightarrow> bm_return (Inl InvalidArgument)
     | Some backend_id \<Rightarrow> call_node env 512 backend_id click_rest)"

definition type_text :: "env \<Rightarrow> u32 \<Rightarrow> string \<Rightarrow> unit bm" where
  "type_text env handle text =
     bm_get (\<lambda>b. case handle_node b handle of
       None \<Rightarrow> bm_return (Inl InvalidArgument)
     | Some backend_id \<Rightarrow> call_node env 1024 backend_id (type_rest text))"

definition scroll :: "env \<Rightarrow> i32 \<Rightarrow> unit bm" where
  "scroll env delta_y =
     bm_get (\<lambda>b0. if \<not> br_started b0 then bm_return (Inl ProcessSpawnError) else
     bm_bind take_req_id (\<lambda>call_id. bm_get (\<lambda>b.
     bm_bind (fmt_cmd 256 (scroll_text call_id (br_session b) delta_y)) (\<lambda>cmd.
     bm_bind (write_pipe env cmd) (\<lambda>_.
     bm_ignore (read_msg_matching env call_id) (bm_return (Inr ())))))))"

section \<open>Stopping, and the other ways a bridge changes\<close>

definition bridge_stop :: "bridge \<Rightarrow> log \<Rightarrow> bridge \<times> log" where
  "bridge_stop b log =
     (let l1 = (if br_to b \<ge> 0 then sys_close (br_to b) log else log);
          l2 = (if br_from b \<ge> 0 then sys_close (br_from b) l1 else l1);
          l3 = (if br_pid b > 0
                then l2 @ [EvProcess (Call_Kill (br_pid b) SIGKILL), EvProcess (Call_Waitpid (br_pid b) False)]
                else l2)
      in (b\<lparr>br_to := (if br_to b \<ge> 0 then - 1 else br_to b),
           br_from := (if br_from b \<ge> 0 then - 1 else br_from b),
           br_pid := (if br_pid b > 0 then - 1 else br_pid b),
           br_started := False, br_session := [], br_next := 1,
           br_handles := acopy (br_handles b) 0 (replicate (alen (br_handles b)) 0)\<rparr>, l3))"

definition init_from_fds :: "int \<Rightarrow> int \<Rightarrow> bridge \<Rightarrow> log \<Rightarrow> bridge \<times> log" where
  "init_from_fds to_chrome_fd from_chrome_fd b log =
     (let (b1, log1) = bridge_stop b log
      in (b1\<lparr>br_to := to_chrome_fd, br_from := from_chrome_fd, br_started := True\<rparr>, log1))"

text \<open>The moved-from bridge keeps its request counter; the pair is the new bridge and the old one.\<close>

definition bridge_move :: "bridge \<Rightarrow> bridge \<times> bridge" where
  "bridge_move other =
     (other, other\<lparr>br_to := - 1, br_from := - 1, br_pid := - 1, br_started := False, br_session := [],
                   br_handles := acopy (br_handles other) 0 (replicate (alen (br_handles other)) 0)\<rparr>)"

definition bridge_assign :: "bridge \<Rightarrow> bridge \<Rightarrow> log \<Rightarrow> (bridge \<times> bridge) \<times> log" where
  "bridge_assign this other log = (bridge_move other, snd (bridge_stop this log))"

definition get_backend_node_id :: "bridge \<Rightarrow> u32 \<Rightarrow> i32" where
  "get_backend_node_id b handle =
     (if unat handle < alen (br_handles b) then aget (br_handles b) (unat handle) else 0)"

definition set_handle_mapping :: "u32 \<Rightarrow> i32 \<Rightarrow> bridge \<Rightarrow> bridge" where
  "set_handle_mapping handle backend_id b =
     (if unat handle < alen (br_handles b)
      then b\<lparr>br_handles := aput (br_handles b) (unat handle) backend_id\<rparr> else b)"

section \<open>What is sent\<close>

text \<open>Events that only write to one descriptor receive nothing and close nothing.\<close>

lemma writes_only_summaries:
  assumes "\<forall>e \<in> set new. writes_only fd e"
  shows "received fd' new = []" and "closed new = []" and "fd' \<noteq> fd \<Longrightarrow> sent fd' new = []"
  using assms by (induction new; auto simp: log_simps split: event.splits)+

lemma write_pipe_loop_spec:
  "write_pipe_loop env fd data log = (ok, log') \<Longrightarrow>
   \<exists>new rest. log' = log @ new \<and> (\<forall>e \<in> set new. writes_only fd e) \<and>
     data = sent fd new @ rest \<and> (ok \<longleftrightarrow> rest = [])"
proof (induction env fd data log rule: write_pipe_loop.induct)
  case (1 env fd data log)
  show ?case
  proof (cases "data = []")
    case True
    with 1(2) show ?thesis by (auto simp: write_pipe_loop.simps log_simps)
  next
    case ne: False
    show ?thesis
    proof (cases "e_write env log fd data")
      case (Err e)
      with 1(2) ne show ?thesis
        by (intro exI [of _ "[EvWrite fd []]"] exI [of _ data])
          (simp add: write_pipe_loop.simps [of env fd data] sys_write_def log_simps)
    next
      case (Ok n)
      show ?thesis
      proof (cases "n = 0")
        case True
        with 1(2) ne Ok show ?thesis
          by (intro exI [of _ "[EvWrite fd []]"] exI [of _ data])
            (simp add: write_pipe_loop.simps [of env fd data] sys_write_def log_simps)
      next
        case False
        with ne have nz: "min n (length data) \<noteq> 0" by (cases data) auto
        have sw: "(Ok (min n (length data)), log @ [EvWrite fd (take n data)]) = sys_write env fd data log"
          using Ok by (simp add: sys_write_def)
        have "write_pipe_loop env fd (drop (min n (length data)) data) (log @ [EvWrite fd (take n data)])
            = (ok, log')"
          using 1(2) ne nz by (simp add: write_pipe_loop.simps [of env fd data] flip: sw)
        from 1(1) [OF ne sw refl nz this] obtain new rest where
          "log' = (log @ [EvWrite fd (take n data)]) @ new"
          "\<forall>e \<in> set new. writes_only fd e" "drop n data = sent fd new @ rest" "ok \<longleftrightarrow> rest = []"
          by auto
        then show ?thesis using append_take_drop_id [of n data]
          by (intro exI [of _ "EvWrite fd (take n data) # new"] exI [of _ rest])
            (simp add: log_simps)
      qed
    qed
  qed
qed

lemma write_pipe_spec:
  assumes "write_pipe env cmd b log = Done (r, b', log')"
  obtains new where "b' = b" "log' = log @ new" "\<forall>e \<in> set new. writes_only (br_to b) e"
    "\<exists>rest. map to_byte cmd @ [0] = sent (br_to b) new @ rest \<and> (r = Inr () \<longrightarrow> rest = [])"
    "r = Inr () \<or> r = Inl IoError"
proof (cases "br_to b < 0")
  case True
  with assms show thesis by (intro that [of "[]"]) (auto simp: write_pipe_def log_simps)
next
  case False
  obtain ok log1 where w: "write_pipe_loop env (br_to b) (map to_byte cmd) log = (ok, log1)"
    by (cases "write_pipe_loop env (br_to b) (map to_byte cmd) log")
  from write_pipe_loop_spec [OF w] obtain new rest where n: "log1 = log @ new"
    "\<forall>e \<in> set new. writes_only (br_to b) e" "map to_byte cmd = sent (br_to b) new @ rest"
    "ok \<longleftrightarrow> rest = []" by blast
  show thesis
  proof (cases ok)
    case no: False
    with assms False w n that [of new] show thesis by (auto simp: write_pipe_def)
  next
    case yes: True
    show thesis
    proof (cases "e_write env log1 (br_to b) [0]")
      case (Err e)
      with assms False w n yes that [of "new @ [EvWrite (br_to b) []]"] show thesis
        by (auto simp: write_pipe_def sys_write_def log_simps)
    next
      case (Ok k)
      with assms False w n yes that [of "new @ [EvWrite (br_to b) (take k [0])]"] show thesis
        by (cases k) (auto simp: write_pipe_def sys_write_def log_simps)
    qed
  qed
qed

section \<open>Which answer is taken\<close>

text \<open>What the buffer keeps of a message.\<close>

definition clip :: "string \<Rightarrow> string" where
  "clip m = take (CDP_BUFFER_SIZE - 1) m"

definition null_ended :: "string \<Rightarrow> string" where
  "null_ended m = m @ [CHR 0x00]"

lemma clip_snoc: "clip (m @ [c]) = (if length (clip m) + 1 < CDP_BUFFER_SIZE then clip m @ [c] else clip m)"
  by (auto simp: clip_def CDP_BUFFER_SIZE_def)

lemma to_char_0 [simp]: "to_char 0 = CHR 0x00"
  by code_simp

lemma to_char_eq_0 [simp]: "to_char c = CHR 0x00 \<longleftrightarrow> c = 0"
  by (metis to_byte_to_char to_char_0)

lemma zero_eq_to_char [simp]: "CHR 0x00 = to_char c \<longleftrightarrow> c = 0"
  by (metis to_char_eq_0)

lemma read_msg_loop_spec:
  "read_msg_loop env fuel fd needle start (clip p) log = Done (r, log') \<Longrightarrow> CHR 0x00 \<notin> set p \<Longrightarrow>
   \<exists>new. log' = log @ new \<and> closed new = [] \<and> (\<forall>fd'. sent fd' new = []) \<and>
     (\<forall>msg. r = Inr msg \<longrightarrow> (\<exists>others m. msg = clip m \<and>
        p @ map to_char (received fd new) = concat (map null_ended others) @ null_ended m \<and>
        CHR 0x00 \<notin> set m \<and> sv_find msg needle 0 \<noteq> None \<and>
        (\<forall>x \<in> set others. CHR 0x00 \<notin> set x \<and> (needle \<noteq> [] \<longrightarrow> sv_find (clip x) needle 0 = None))))"
proof (induction fuel arbitrary: p log)
  case 0
  then show ?case by simp
next
  case (Suc fuel)
  from Suc.prems(1) obtain rem where
    rem: "remaining_ms 2000 (int (e_clock_ms env log) - int start) = Some rem"
    by (cases "remaining_ms 2000 (int (e_clock_ms env log) - int start)") auto
  let ?l1 = "log @ [EvClock]"
  let ?l2 = "?l1 @ [EvPoll fd rem]"
  show ?case
  proof (cases "rem \<le> 0 \<or> \<not> e_poll env ?l1 fd rem")
    case True
    with Suc.prems rem have "r = Inl IoError \<and> (log' = ?l1 \<or> log' = ?l2)"
      by (auto simp: sys_poll_def split: if_splits)
    then show ?thesis by (auto simp: log_simps)
  next
    case go: False
    show ?thesis
    proof (cases "\<exists>c cs. e_read env ?l2 fd 1 = Ok (c # cs)")
      case False
      then consider e where "e_read env ?l2 fd 1 = Err e" | "e_read env ?l2 fd 1 = Ok []"
        by (metis list.exhaust sysres.exhaust)
      then have "r = Inl IoError \<and> log' = ?l2 @ [EvRead fd []]"
        using go Suc.prems(1) rem by cases (auto simp: sys_poll_def sys_read_def)
      then show ?thesis by (auto simp: log_simps)
    next
      case True
      then obtain c cs where rd: "e_read env ?l2 fd 1 = Ok (c # cs)" by blast
      let ?l3 = "?l2 @ [EvRead fd [c]]"
      let ?e = "[EvClock, EvPoll fd rem, EvRead fd [c]]"
      consider (match) "c = 0" "r = Inr (clip p)" "log' = ?l3" "sv_find (clip p) needle 0 \<noteq> None"
        | (other) "c = 0" "read_msg_loop env fuel fd needle start (clip []) ?l3 = Done (r, log')"
            "needle \<noteq> [] \<longrightarrow> sv_find (clip p) needle 0 = None"
        | (byte) "c \<noteq> 0" "read_msg_loop env fuel fd needle start (clip (p @ [to_char c])) ?l3 = Done (r, log')"
        using go Suc.prems rem rd
        by (auto simp: sys_poll_def sys_read_def clip_snoc clip_def [of "[]"] split: if_splits)
      then show ?thesis
      proof cases
        case match
        then show ?thesis using Suc.prems(2)
          by (intro exI [of _ ?e])
            (auto simp: log_simps null_ended_def intro!: exI [of _ "[]"] exI [of _ p])
      next
        case other
        from Suc.IH [OF other(2)] obtain new where n: "log' = ?l3 @ new" "closed new = []"
          "\<forall>fd'. sent fd' new = []"
          "\<forall>msg. r = Inr msg \<longrightarrow> (\<exists>others m. msg = clip m \<and>
             map to_char (received fd new) = concat (map null_ended others) @ null_ended m \<and>
             CHR 0x00 \<notin> set m \<and> sv_find msg needle 0 \<noteq> None \<and> (\<forall>x \<in> set others.
               CHR 0x00 \<notin> set x \<and> (needle \<noteq> [] \<longrightarrow> sv_find (clip x) needle 0 = None)))"
          by auto
        have "\<exists>others m. msg = clip m \<and>
            p @ map to_char (received fd (?e @ new)) = concat (map null_ended others) @ null_ended m \<and>
            CHR 0x00 \<notin> set m \<and> sv_find msg needle 0 \<noteq> None \<and> (\<forall>x \<in> set others.
              CHR 0x00 \<notin> set x \<and> (needle \<noteq> [] \<longrightarrow> sv_find (clip x) needle 0 = None))"
          if r: "r = Inr msg" for msg
        proof -
          obtain others m where "msg = clip m"
            "map to_char (received fd new) = concat (map null_ended others) @ null_ended m"
            "CHR 0x00 \<notin> set m" "sv_find msg needle 0 \<noteq> None" "\<forall>x \<in> set others.
               CHR 0x00 \<notin> set x \<and> (needle \<noteq> [] \<longrightarrow> sv_find (clip x) needle 0 = None)"
            using n(4) r by blast
          then show ?thesis using other Suc.prems(2)
            by (intro exI [of _ "p # others"] exI [of _ m]) (auto simp: log_simps null_ended_def)
        qed
        with n show ?thesis by (intro exI [of _ "?e @ new"]) (simp add: log_simps)
      next
        case byte
        then have "CHR 0x00 \<notin> set (p @ [to_char c])" using Suc.prems(2) by auto
        from Suc.IH [OF byte(2) this] obtain new where "log' = ?l3 @ new" "closed new = []"
          "\<forall>fd'. sent fd' new = []"
          "\<forall>msg. r = Inr msg \<longrightarrow> (\<exists>others m. msg = clip m \<and>
             p @ to_char c # map to_char (received fd new) = concat (map null_ended others) @ null_ended m \<and>
             CHR 0x00 \<notin> set m \<and> sv_find msg needle 0 \<noteq> None \<and> (\<forall>x \<in> set others.
               CHR 0x00 \<notin> set x \<and> (needle \<noteq> [] \<longrightarrow> sv_find (clip x) needle 0 = None)))"
          by auto
        then show ?thesis by (intro exI [of _ "?e @ new"]) (simp add: log_simps)
      qed
    qed
  qed
qed

lemma read_msg_matching_spec:
  assumes "read_msg_matching env i b log = Done (r, b', log')"
  shows "b' = b \<and> (\<exists>new. log' = log @ new \<and> closed new = [] \<and> (\<forall>fd'. sent fd' new = []) \<and>
    (\<forall>msg. r = Inr msg \<longrightarrow> (\<exists>others m. msg = clip m \<and>
       map to_char (received (br_from b) new) = concat (map null_ended others) @ null_ended m \<and>
       CHR 0x00 \<notin> set m \<and> sv_find msg (id_needle i) 0 \<noteq> None \<and>
       (\<forall>x \<in> set others. CHR 0x00 \<notin> set x \<and> sv_find (clip x) (id_needle i) 0 = None))))"
proof (cases "br_from b < 0")
  case True
  with assms show ?thesis by (auto simp: read_msg_matching_def log_simps)
next
  case False
  let ?loop = "read_msg_loop env (e_fuel env) (br_from b) (id_needle i) (e_clock_ms env log) []
    (log @ [EvClock])"
  from assms False have "run_bind ?loop (\<lambda>(r, log1). Done (r, b, log1)) = Done (r, b', log')"
    by (simp only: read_msg_matching_def if_False)
  then have "?loop = Done (r, log')" and b: "b' = b"
    unfolding run_bind_Done by (simp_all add: split_def prod_eq_iff) (metis prod.collapse)+
  then have l: "read_msg_loop env (e_fuel env) (br_from b) (id_needle i) (e_clock_ms env log) (clip [])
    (log @ [EvClock]) = Done (r, log')" by (simp only: clip_def take_Nil)
  have ne: "id_needle i \<noteq> []" by (simp add: id_needle_def id_field_def key_def)
  from read_msg_loop_spec [OF l] obtain new where "log' = (log @ [EvClock]) @ new" "closed new = []"
    "\<forall>fd'. sent fd' new = []" "\<forall>msg. r = Inr msg \<longrightarrow> (\<exists>others m. msg = clip m \<and>
       [] @ map to_char (received (br_from b) new) = concat (map null_ended others) @ null_ended m \<and>
       CHR 0x00 \<notin> set m \<and> sv_find msg (id_needle i) 0 \<noteq> None \<and> (\<forall>x \<in> set others.
         CHR 0x00 \<notin> set x \<and> (id_needle i \<noteq> [] \<longrightarrow> sv_find (clip x) (id_needle i) 0 = None)))"
    by auto
  with b ne show ?thesis by (intro conjI exI [of _ "EvClock # new"]) (auto simp: log_simps)
qed

text \<open>
  C16. read_msg_matching answers with the first message of the stream that holds the request's id, cut
  to the buffer: what it took from the pipe is a sequence of null-ended messages of which exactly the
  last one has the text of the id in its kept part; it sends nothing.
\<close>

theorem first_matching_reply:
  assumes "read_msg_matching env i b log = Done (Inr msg, b', log')"
  shows "\<exists>new others m. log' = log @ new \<and> b' = b \<and> (\<forall>fd. sent fd new = []) \<and>
    map to_char (received (br_from b) new) = concat (map null_ended others) @ null_ended m \<and>
    msg = take (CDP_BUFFER_SIZE - 1) m \<and> sv_find msg (id_needle i) 0 \<noteq> None \<and>
    (\<forall>x \<in> set others. CHR 0x00 \<notin> set x \<and>
       sv_find (take (CDP_BUFFER_SIZE - 1) x) (id_needle i) 0 = None)"
proof -
  from read_msg_matching_spec [OF assms] obtain new where n: "b' = b" "log' = log @ new"
    "\<forall>fd. sent fd new = []" "\<forall>msg'. Inr msg = (Inr msg' :: string result) \<longrightarrow>
      (\<exists>others m. msg' = clip m \<and>
       map to_char (received (br_from b) new) = concat (map null_ended others) @ null_ended m \<and>
       CHR 0x00 \<notin> set m \<and> sv_find msg' (id_needle i) 0 \<noteq> None \<and>
       (\<forall>x \<in> set others. CHR 0x00 \<notin> set x \<and> sv_find (clip x) (id_needle i) 0 = None))" by blast
  from n(4) [rule_format, OF refl] obtain others m where "msg = clip m"
    "map to_char (received (br_from b) new) = concat (map null_ended others) @ null_ended m"
    "sv_find msg (id_needle i) 0 \<noteq> None"
    "\<forall>x \<in> set others. CHR 0x00 \<notin> set x \<and> sv_find (clip x) (id_needle i) 0 = None" by blast
  with n(1-3) show ?thesis unfolding clip_def by blast
qed

section \<open>Commands and their buffers\<close>

lemma length_dec_int: "- (2 ^ 31) \<le> i \<Longrightarrow> i < 2 ^ 31 \<Longrightarrow> length (dec_int i) \<le> 11"
  using length_decimal_le [of 10 "nat i"] length_decimal_le [of 10 "nat (- i)"]
  by (auto simp: dec_int_def nat_less_iff)

lemma length_dec_int_pos: "0 \<le> i \<Longrightarrow> i < 2 ^ 31 \<Longrightarrow> length (dec_int i) \<le> 10"
  using length_decimal_le [of 10 "nat i"] by (auto simp: dec_int_def nat_less_iff)

lemma length_dec_int_sint: "length (dec_int (sint (w :: i32))) \<le> 11"
  using length_dec_int [of "sint w"] sint_ge [of w] sint_lt [of w] by simp

lemma length_dec_int_ge: "1 \<le> length (dec_int i)"
  using decimal_nonempty [of "nat i"] by (auto simp: dec_int_def Suc_le_eq)

lemma length_c_str: "length (c_str s) \<le> length s"
  by (simp add: c_str_def length_takeWhile_le)

lemmas text_lengths = get_targets_text_def axtree_text_def session_cmd_text_def scroll_text_def
  node_params_def id_field_def str_field_def

definition bridge_ok :: "bridge \<Rightarrow> bool" where
  "bridge_ok b \<longleftrightarrow> length (br_session b) < SESSION_ID_SIZE \<and> 0 < br_next b \<and> br_next b < 2 ^ 31 \<and>
     alen (br_handles b) = MAX_HANDLES"

lemma bridge_ok_init: "bridge_ok bridge_init"
  by (simp add: bridge_ok_def bridge_init_def SESSION_ID_SIZE_def)

lemma length_resolve_cmd:
  assumes "0 \<le> i" "i < 2 ^ 31" "length session < SESSION_ID_SIZE"
  shows "length (session_cmd_text i session ''DOM.resolveNode'' (node_params backend)) < 256"
proof -
  have "length (c_str (node_params backend)) \<le> length (node_params backend)" by (rule length_c_str)
  moreover have "length (node_params backend) \<le> 29"
    using length_dec_int_sint [of backend] by (simp add: node_params_def)
  moreover have "length (c_str session) \<le> 63"
    using length_c_str [of session] assms(3) by (simp add: SESSION_ID_SIZE_def)
  moreover have "length (c_str ''DOM.resolveNode'') \<le> 15"
    by (rule order_trans [OF length_c_str]) simp
  ultimately show ?thesis
    using length_dec_int_pos [OF assms(1,2)] by (simp add: session_cmd_text_def id_field_def str_field_def)
qed

section \<open>What every operation respects\<close>

text \<open>
  A reflexive and transitive relation between the bridge and the log before and after that allows any
  event and the five ways in which a bridge changes is respected by every operation.
\<close>

definition obeys :: "(bridge \<times> log \<Rightarrow> bridge \<times> log \<Rightarrow> bool) \<Rightarrow> 'a bm \<Rightarrow> bool" where
  "obeys R m \<longleftrightarrow> (\<forall>b log r b' log'. m b log = Done (r, b', log') \<longrightarrow> R (b, log) (b', log'))"

lemma obeysI: "(\<And>b log r b' log'. m b log = Done (r, b', log') \<Longrightarrow> R (b, log) (b', log')) \<Longrightarrow> obeys R m"
  by (simp add: obeys_def)

lemma obeysD: "obeys R m \<Longrightarrow> m b log = Done (r, b', log') \<Longrightarrow> R (b, log) (b', log')"
  by (simp add: obeys_def)

lemma bm_bind_Done: "bm_bind m f b log = Done (r, b', log') \<longleftrightarrow>
  (\<exists>e. m b log = Done (Inl e, b', log') \<and> r = Inl e) \<or>
  (\<exists>x b1 log1. m b log = Done (Inr x, b1, log1) \<and> f x b1 log1 = Done (r, b', log'))"
  by (cases "m b log") (auto simp: bm_bind_def split: sum.splits)

lemma bm_ignore_Done: "bm_ignore m k b log = Done (r, b', log') \<longleftrightarrow>
  (\<exists>x b1 log1. m b log = Done (x, b1, log1) \<and> k b1 log1 = Done (r, b', log'))"
  by (cases "m b log") (auto simp: bm_ignore_def)

locale bridge_relation =
  fixes R :: "bridge \<times> log \<Rightarrow> bridge \<times> log \<Rightarrow> bool"
  assumes R_refl: "R s s"
    and R_trans: "R s s' \<Longrightarrow> R s' s'' \<Longrightarrow> R s s''"
    and R_event: "R (b, log) (b, log @ [e])"
    and R_req_id: "br_next b < 2 ^ 31 - 1 \<Longrightarrow> R (b, log) (b\<lparr>br_next := br_next b + 1\<rparr>, log)"
    and R_session: "length sid < SESSION_ID_SIZE \<Longrightarrow> R (b, log) (b\<lparr>br_session := sid\<rparr>, log)"
    and R_started: "R (b, log) (b\<lparr>br_to := x, br_from := y, br_pid := z, br_started := True\<rparr>, log)"
    and R_handles: "alen h = alen (br_handles b) \<Longrightarrow> R (b, log) (b\<lparr>br_handles := h\<rparr>, log)"
begin

lemma R_events: "R (b, log) (b, log @ es)"
proof (induction es arbitrary: log)
  case Nil
  show ?case by (simp add: R_refl)
next
  case (Cons e es)
  have "R (b, log) (b, (log @ [e]) @ es)" by (rule R_trans [OF R_event Cons.IH])
  then show ?case by simp
qed

lemma obeys_return: "obeys R (bm_return x)"
  by (simp add: obeys_def bm_return_def R_refl)

lemma obeys_bind: "obeys R m \<Longrightarrow> (\<And>x. obeys R (f x)) \<Longrightarrow> obeys R (bm_bind m f)"
  by (rule obeysI) (auto simp: bm_bind_Done dest: obeysD, metis obeysD R_trans)

lemma obeys_ignore: "obeys R m \<Longrightarrow> obeys R k \<Longrightarrow> obeys R (bm_ignore m k)"
  by (rule obeysI) (auto simp: bm_ignore_Done intro: R_trans [OF obeysD obeysD])

lemma obeys_get: "(\<And>b. obeys R (f b)) \<Longrightarrow> obeys R (bm_get f)"
  by (auto simp: obeys_def bm_get_def)

lemma obeys_event: "obeys R k \<Longrightarrow> obeys R (bm_event e k)"
  unfolding obeys_def bm_event_def by (blast intro: R_trans R_event)

lemma obeys_fmt_cmd: "obeys R (fmt_cmd n t)"
  by (auto simp: obeys_def fmt_cmd_def run_bind_Done R_refl split: if_splits)

lemma obeys_req_id: "obeys R take_req_id"
  by (auto simp: obeys_def take_req_id_def R_req_id split: if_splits)

lemma obeys_set_session: "obeys R (set_session s)"
  by (simp add: obeys_def set_session_def R_session SESSION_ID_SIZE_def)

lemma obeys_write_pipe: "obeys R (write_pipe env cmd)"
  unfolding obeys_def
proof (intro allI impI)
  fix b log r b' log'
  assume "write_pipe env cmd b log = Done (r, b', log')"
  then show "R (b, log) (b', log')" by (rule write_pipe_spec) (simp add: R_events)
qed

lemma obeys_read_msg: "obeys R (read_msg_matching env i)"
  unfolding obeys_def by (blast dest: read_msg_matching_spec intro: R_events)

lemmas obeys_basic = obeys_return obeys_bind obeys_ignore obeys_get obeys_event
  obeys_fmt_cmd obeys_req_id obeys_set_session obeys_write_pipe obeys_read_msg

lemma obeys_session_cmd: "obeys R (send_session_cmd env meth params)"
  unfolding send_session_cmd_def by (intro obeys_basic)

lemma obeys_attach: "obeys R (attach_to_page env)"
  unfolding attach_to_page_def
  by (intro obeys_basic; (split option.split list.split)?; intro conjI allI impI;
      intro obeys_basic; (split list.split)?; intro conjI allI impI obeys_basic obeys_session_cmd)

lemma find_chrome_log: "\<exists>new. snd (find_chrome env ps log) = log @ new"
proof (induction ps arbitrary: log)
  case Nil
  show ?case by simp
next
  case (Cons p ps)
  obtain new where "snd (find_chrome env ps (log @ [EvFile (Call_Access p)]))
      = (log @ [EvFile (Call_Access p)]) @ new" using Cons.IH by blast
  then show ?case by simp
qed

lemma obeys_start: "obeys R (bridge_start env url)"
proof (rule obeysI)
  fix b log r b' log'
  assume run: "bridge_start env url b log = Done (r, b', log')"
  show "R (b, log) (b', log')"
  proof (cases "\<exists>es. b' = b \<and> log' = log @ es")
    case True
    then show ?thesis using R_events by blast
  next
    case False
    obtain p l1 new where fc: "find_chrome env chrome_paths log = (p, l1)" "l1 = log @ new"
      using find_chrome_log [of env chrome_paths log] by (cases "find_chrome env chrome_paths log") auto
    with run False obtain x y z es where
      "attach_to_page env (b\<lparr>br_to := x, br_from := y, br_pid := z, br_started := True\<rparr>) (log @ es)
         = Done (r, b', log')"
      by (fastforce simp: bridge_start_def sys_close_def Let_def split: if_splits option.splits)
    from obeysD [OF obeys_attach this] show ?thesis
      by (rule R_trans [OF R_started R_trans [OF R_events]])
  qed
qed

lemma obeys_navigate: "obeys R (navigate env url)"
proof (rule obeysI)
  fix b log r b' log'
  assume run: "navigate env url b log = Done (r, b', log')"
  show "R (b, log) (b', log')"
  proof (cases "br_started b")
    case False
    with run show ?thesis by (simp add: navigate_def obeysD [OF obeys_start])
  next
    case True
    then have "bm_bind (send_session_cmd env ''Page.navigate''
        (take 1023 (''{'' @ str_field ''url'' (c_str url) @ ''}'')))
        (\<lambda>_. bm_event (EvSleep 100000) (bm_return (Inr ()))) b log = Done (r, b', log')"
      using run by (simp only: navigate_def not_True_eq_False if_False)
    then show ?thesis
      by (rule obeysD [rotated]) (intro obeys_basic obeys_session_cmd)
  qed
qed

lemma obeys_axtree_reply: "obeys R (axtree_reply env)"
  unfolding axtree_reply_def by (intro obeys_basic) (auto intro: obeys_start obeys_return)

lemma get_axtree_R:
  assumes "get_axtree env nodes text b log = Done (r, nodes', text', b', log')"
  shows "R (b, log) (b', log')"
proof -
  obtain r1 b1 log1 where a: "axtree_reply env b log = Done (r1, b1, log1)"
    using assms by (cases "axtree_reply env b log") (auto simp: get_axtree_def)
  have "R (b1, log1) (b', log')"
  proof (cases r1)
    case (Inl e)
    with assms a show ?thesis by (simp add: get_axtree_def R_refl)
  next
    case (Inr json)
    obtain r2 nodes2 text2 h2 where f: "filter_and_format json nodes text (br_handles b1)
        = (r2, nodes2, text2, h2)"
      by (cases "filter_and_format json nodes text (br_handles b1)") auto
    with assms a Inr have "b' = b1\<lparr>br_handles := h2\<rparr>" "log' = log1"
      by (simp_all add: get_axtree_def)
    with filter_and_format_shape [OF f] show ?thesis by (simp add: R_handles)
  qed
  with obeysD [OF obeys_axtree_reply a] show ?thesis by (rule R_trans)
qed

lemma obeys_resolve: "obeys R (resolve_node env backend_id)"
  unfolding resolve_node_def
  by (intro obeys_basic; (split list.split)?; intro conjI allI impI obeys_basic)

lemma obeys_call: "obeys R (call_node env n backend_id rest)"
  unfolding call_node_def by (intro obeys_basic obeys_resolve)

lemma obeys_click: "obeys R (click env handle)"
  unfolding click_def by (intro obeys_basic; (split option.split)?; intro conjI allI impI obeys_basic obeys_call)

lemma obeys_type: "obeys R (type_text env handle text)"
  unfolding type_text_def
  by (intro obeys_basic; (split option.split)?; intro conjI allI impI obeys_basic obeys_call)

lemma obeys_scroll: "obeys R (scroll env delta)"
  unfolding scroll_def by (intro obeys_basic; (split if_split)?; intro conjI allI impI obeys_basic)

end

text \<open>Two such relations: the state stays well formed, and the log only grows.\<close>

interpretation ok: bridge_relation "\<lambda>(b, log) (b', log'). bridge_ok b \<longrightarrow> bridge_ok b'"
  by unfold_locales (auto simp: bridge_ok_def)

interpretation grow: bridge_relation "\<lambda>(b, log) (b', log'). \<exists>new. log' = log @ new"
  by unfold_locales auto

section \<open>Bounds of the commands\<close>

lemma length_c_str_le: "length s \<le> n \<Longrightarrow> length (c_str s) \<le> n"
  using length_c_str [of s] by simp



lemma fmt_cmd_overreads: "n < length t \<Longrightarrow> fmt_cmd n t b log = Fault"
  by (auto simp: fmt_cmd_def fmt_view_def)

lemma fmt_cmd_fits: "t \<noteq> [] \<Longrightarrow> length t < n \<Longrightarrow> fmt_cmd n t b log = Done (Inr t, b, log)"
  by (simp add: fmt_cmd_def fmt_view_def)

text \<open>
  C35. A started bridge that is asked to go to a URL of 445 characters or more leaves the program's
  defined behaviour: snprintf cuts the command to 512 bytes, but what is written is a view of the
  length it would have had.
\<close>

theorem navigate_overreads:
  assumes "br_started b" and "445 \<le> length url" and "CHR 0x00 \<notin> set url"
  shows "navigate env url b log = Fault"
proof -
  have u: "c_str url = url"
    using assms(3) by (auto simp: c_str_def takeWhile_eq_all_conv)
  define params where "params = take 1023 (''{'' @ str_field ''url'' url @ ''}'')"
  have len: "455 \<le> length params" using assms(2) by (simp add: params_def str_field_def)
  have "CHR 0x00 \<notin> set (''{'' @ str_field ''url'' url @ ''}'')"
    using assms(3) by (auto simp: str_field_def key_def QUOTE_def)
  then have "CHR 0x00 \<notin> set params" unfolding params_def by (meson in_set_takeD)
  then have p: "c_str params = params"
    by (auto simp: c_str_def takeWhile_eq_all_conv)
  have "c_str ''Page.navigate'' = ''Page.navigate''" by (simp add: c_str_def)
  then have "512 < length (session_cmd_text i session ''Page.navigate'' params)" for i session
    using len length_dec_int_ge [of i] by (simp add: session_cmd_text_def id_field_def str_field_def p)
  then have f: "fmt_cmd 512 (session_cmd_text i session ''Page.navigate'' params) b' log' = Fault"
    for i session b' log' by (rule fmt_cmd_overreads)
  have "send_session_cmd env ''Page.navigate'' params b log = Fault"
    by (auto simp: send_session_cmd_def bm_bind_def bm_get_def take_req_id_def f)
  then show ?thesis
    using assms(1) by (simp only: navigate_def bm_bind_def u params_def [symmetric] not_True_eq_False
        if_False run_bind.simps)
qed

theorem navigate_overreads_witness:
  "navigate dead_env (replicate 445 CHR ''a'') (bridge_init\<lparr>br_started := True\<rparr>) [] = Fault"
  by (rule navigate_overreads) simp_all

section \<open>Clicking what was shown\<close>

lemma handle_node_of_shown:
  assumes "get_axtree env nodes text b log = Done (Inr n, nodes', text', b1, log1)"
    and "bridge_ok b" and "node \<in> set (fv_as_span nodes')" and "n_handle node \<noteq> 0"
    and "n_backend node \<noteq> 0"
  shows "handle_node b1 (of_nat (n_handle node)) = Some (n_backend node)"
proof -
  obtain r0 b0 log0 where a: "axtree_reply env b log = Done (r0, b0, log0)"
    using assms(1) by (cases "axtree_reply env b log") (auto simp: get_axtree_def)
  have "bridge_ok b0" using obeysD [OF ok.obeys_axtree_reply a] assms(2) by simp
  then have len: "alen (br_handles b0) = MAX_HANDLES" by (simp add: bridge_ok_def)
  obtain json where j: "r0 = Inr json" using assms(1) a by (cases r0) (auto simp: get_axtree_def)
  then obtain hmap where f: "filter_and_format json nodes text (br_handles b0) = (Inr n, nodes', text', hmap)"
    and b1: "b1 = b0\<lparr>br_handles := hmap\<rparr>"
    using assms(1) a by (auto simp: get_axtree_def split: prod.splits)
  have s: "n_handle node < MAX_HANDLES" "aget hmap (n_handle node) = n_backend node"
    using handles_sound [OF f] assms(3,4) len by auto
  have "alen hmap = MAX_HANDLES" using filter_and_format_shape [OF f] len by simp
  moreover have "unat (of_nat (n_handle node) :: u32) = n_handle node"
    using s(1) by (simp add: unat_of_nat MAX_HANDLES_def)
  moreover have "of_nat (n_handle node) \<noteq> (0 :: u32)"
    using calculation(2) assms(4) by (metis unat_0)
  ultimately show ?thesis using s assms(5) by (simp add: handle_node_def b1)
qed

lemma resolve_node_sends:
  assumes "resolve_node env backend b log = Done (r, b', log')" and "bridge_ok b"
  shows "\<exists>first rest new. log' = log @ first @ new \<and>
    map to_byte (session_cmd_text (br_next b) (br_session b) ''DOM.resolveNode'' (node_params backend)) @ [0]
      = sent (br_to b) first @ rest \<and> ((\<exists>x. r = Inr x) \<longrightarrow> rest = [])"
proof -
  let ?cmd = "session_cmd_text (br_next b) (br_session b) ''DOM.resolveNode'' (node_params backend)"
  let ?b1 = "b\<lparr>br_next := br_next b + 1\<rparr>"
  let ?tail = "\<lambda>_. bm_bind (read_msg_matching env (br_next b)) (\<lambda>resp.
       case extract_field_str resp (key ''objectId'') of
         [] \<Rightarrow> bm_return (Inl ProtocolError)
       | object_id \<Rightarrow> bm_return (Inr object_id))"
  have p: "node_params backend \<noteq> []" "length (node_params backend) < 128"
    using length_dec_int_sint [of backend] by (simp_all add: text_lengths)
  have n: "br_next b < 2 ^ 31 - 1"
    using assms(1) by (auto simp: resolve_node_def bm_bind_def fmt_cmd_fits [OF p] take_req_id_def
        split: if_splits)
  have c: "?cmd \<noteq> []" "length ?cmd < 256"
    using assms(2) by (simp add: session_cmd_text_def) (rule length_resolve_cmd; use assms(2) in
        \<open>simp add: bridge_ok_def\<close>)
  have "resolve_node env backend b log = bm_bind (write_pipe env ?cmd) ?tail ?b1 log"
    using n by (simp add: resolve_node_def bm_bind_def [of "fmt_cmd 128 _"] bm_bind_def [of "fmt_cmd 256 _"]
        bm_bind_def [of take_req_id] take_req_id_def bm_get_def fmt_cmd_fits [OF p] fmt_cmd_fits [OF c])
  with assms(1) consider e where "write_pipe env ?cmd ?b1 log = Done (Inl e, b', log')" "r = Inl e"
    | x b2 log2 where "write_pipe env ?cmd ?b1 log = Done (Inr x, b2, log2)" "?tail x b2 log2 = Done (r, b', log')"
    by (auto simp: bm_bind_Done)
  then show ?thesis
  proof cases
    case 1
    from 1(1) show ?thesis
      by (rule write_pipe_spec) (use 1(2) in \<open>auto intro: exI [of _ "[]"]\<close>)
  next
    case 2
    have "obeys (\<lambda>(b, log) (b', log'). \<exists>new. log' = log @ new) (?tail x)"
      by (intro grow.obeys_basic; (split list.split)?; intro conjI allI impI grow.obeys_basic)
    from obeysD [OF this 2(2)] obtain new where "log' = log2 @ new" by auto
    with 2(1) show ?thesis
      by (elim write_pipe_spec) auto
  qed
qed

lemma call_node_sends:
  assumes "call_node env n backend js b log = Done (r, b', log')" and "bridge_ok b"
  shows "\<exists>first rest new. log' = log @ first @ new \<and>
    map to_byte (session_cmd_text (br_next b) (br_session b) ''DOM.resolveNode'' (node_params backend)) @ [0]
      = sent (br_to b) first @ rest \<and> (r = Inr () \<longrightarrow> rest = [])"
proof -
  obtain r1 b1 log1 where res: "resolve_node env backend b log = Done (r1, b1, log1)"
    and r1: "(\<exists>e. r1 = Inl e \<and> r = Inl e \<and> log' = log1) \<or> (\<exists>x new. r1 = Inr x \<and> log' = log1 @ new)"
  proof -
    consider e where "resolve_node env backend b log = Done (Inl e, b', log')" "r = Inl e"
      | x b1 log1 where "resolve_node env backend b log = Done (Inr x, b1, log1)"
          "bm_bind take_req_id (\<lambda>call_id. bm_get (\<lambda>b.
             bm_bind (fmt_cmd n (call_text call_id (br_session b) x js)) (\<lambda>cmd.
             bm_bind (write_pipe env cmd) (\<lambda>_.
             bm_ignore (read_msg_matching env call_id) (bm_return (Inr ())))))) b1 log1 = Done (r, b', log')"
      using assms(1) unfolding call_node_def bm_bind_Done [of "resolve_node env backend"] by blast
    then show thesis
    proof cases
      case 1
      with that show thesis by blast
    next
      case 2
      have "obeys (\<lambda>(b, log) (b', log'). \<exists>new. log' = log @ new) (bm_bind take_req_id (\<lambda>call_id. bm_get (\<lambda>b.
             bm_bind (fmt_cmd n (call_text call_id (br_session b) x js)) (\<lambda>cmd.
             bm_bind (write_pipe env cmd) (\<lambda>_.
             bm_ignore (read_msg_matching env call_id) (bm_return (Inr ())))))))"
        by (intro grow.obeys_basic)
      from obeysD [OF this 2(2)] 2(1) that show thesis by auto
    qed
  qed
  from resolve_node_sends [OF res assms(2)] obtain first rest new where
    f: "log1 = log @ first @ new" "map to_byte (session_cmd_text (br_next b) (br_session b) ''DOM.resolveNode''
      (node_params backend)) @ [0] = sent (br_to b) first @ rest" "(\<exists>x. r1 = Inr x) \<longrightarrow> rest = []" by blast
  from r1 show ?thesis
  proof
    assume "\<exists>e. r1 = Inl e \<and> r = Inl e \<and> log' = log1"
    with f show ?thesis by auto
  next
    assume "\<exists>x new. r1 = Inr x \<and> log' = log1 @ new"
    with f show ?thesis by (metis append.assoc)
  qed
qed

text \<open>
  C15. The handles mean what the tree showed: after get_axtree has succeeded, clicking the handle of a
  reported node with a DOM node first sends, or starts to send, the command that resolves exactly
  that DOM node, and a click that succeeds has sent all of it.
\<close>

theorem click_resolves_shown_node:
  assumes "get_axtree env nodes text b log = Done (Inr n, nodes', text', b1, log1)"
    and "bridge_ok b" and "node \<in> set (fv_as_span nodes')" and "n_handle node \<noteq> 0"
    and "n_backend node \<noteq> 0"
    and "click env (of_nat (n_handle node)) b1 log1 = Done (r, b2, log2)"
  shows "\<exists>first rest new. log2 = log1 @ first @ new \<and>
    map to_byte (session_cmd_text (br_next b1) (br_session b1) ''DOM.resolveNode''
      (node_params (n_backend node))) @ [0] = sent (br_to b1) first @ rest \<and>
    (r = Inr () \<longrightarrow> rest = [])"
proof -
  have ok1: "bridge_ok b1" using ok.get_axtree_R [OF assms(1)] assms(2) by auto
  let ?cmd = "session_cmd_text (br_next b1) (br_session b1) ''DOM.resolveNode'' (node_params (n_backend node))"
  have "call_node env 512 (n_backend node) click_rest b1 log1 = Done (r, b2, log2)"
    using assms(6) handle_node_of_shown [OF assms(1-5)] by (simp add: click_def bm_get_def)
  from call_node_sends [OF this ok1] show ?thesis by blast
qed

text \<open>
  A browser that takes every byte written to it and answers with the bytes of a script: a tree with
  one button, whose DOM node is 42, the object of that node, and the answer to the call.
\<close>

definition tree_answer :: string where
  "tree_answer =
     ''{'' @ id_field 1 @ '','' @ key ''nodes'' @ '':[{'' @ key ''role'' @ '':{'' @ key ''value'' @ '':'' @
       key ''button'' @ ''},'' @ key ''backendDOMNodeId'' @ '':42}]}''"

definition object_answer :: string where
  "object_answer = ''{'' @ id_field 2 @ '','' @ str_field ''objectId'' ''o'' @ ''}''"

definition call_answer :: string where
  "call_answer = ''{'' @ id_field 3 @ ''}''"

definition button_script :: string where
  "button_script = null_ended tree_answer @ null_ended object_answer @ null_ended call_answer"

definition chrome_env :: "string \<Rightarrow> env" where
  "chrome_env script = dead_env\<lparr>e_fuel := 200, e_poll := (\<lambda>_ _ _. True),
     e_write := (\<lambda>log fd data. Ok (length data)),
     e_read := (\<lambda>log fd n. let k = reads fd log
       in if k < length script then Ok [to_byte (script ! k)] else Ok [])\<rparr>"

lemma chrome_env_simps [simp]:
  "e_fuel (chrome_env s) = 200" "e_poll (chrome_env s) log fd t" "e_clock_ms (chrome_env s) log = 0"
  "e_write (chrome_env s) log fd data = Ok (length data)"
  "e_read (chrome_env s) log fd n = (if reads fd log < length s then Ok [to_byte (s ! reads fd log)] else Ok [])"
  by (simp_all add: chrome_env_def dead_env_def Let_def)

lemma remaining_ms_fresh [simp]: "remaining_ms 2000 0 = Some 2000"
  by code_simp

lemma chrome_write:
  assumes "0 \<le> br_to b"
  shows "write_pipe (chrome_env s) cmd b log =
    Done (Inr (), b, log @ (if cmd = [] then [] else [EvWrite (br_to b) (map to_byte cmd)]) @ [EvWrite (br_to b) [0]])"
  using assms
  by (auto simp: write_pipe_def sys_write_def write_pipe_loop.simps [of _ _ "map to_byte cmd"]
      write_pipe_loop.simps [of _ _ "[]"])

lemma reads_simps [simp]:
  "reads fd [] = 0" "reads fd (EvWrite x y # l) = reads fd l" "reads fd (EvClock # l) = reads fd l"
  "reads fd (EvPoll x t # l) = reads fd l"
  by (simp_all add: reads_def)

lemma to_byte_eq_0 [simp]: "to_byte c = 0 \<longleftrightarrow> c = CHR 0x00"
  by (metis to_char_0 to_char_to_byte to_byte_to_char)

lemma chrome_read_loop:
  assumes "drop (reads fd log) s = null_ended m @ rest" and "CHR 0x00 \<notin> set m" and "length m < fuel"
    and "length (rx @ m) < CDP_BUFFER_SIZE" and "sv_find (rx @ m) needle 0 \<noteq> None" and "needle \<noteq> []"
  shows "\<exists>new. read_msg_loop (chrome_env s) fuel fd needle 0 rx log = Done (Inr (rx @ m), log @ new) \<and>
    reads fd new = length m + 1"
  using assms
proof (induction m arbitrary: fuel rx log)
  case Nil
  then obtain f where f: "fuel = Suc f" by (cases fuel) auto
  have k: "reads fd log < length s" "s ! reads fd log = CHR 0x00"
    using Nil.prems(1) by (auto simp: null_ended_def not_le [symmetric]) (metis hd_append2 hd_drop_conv_nth list.sel(1) list.simps(3) not_le drop_all)
  show ?case
    using Nil.prems(5,6) k
    by (intro exI [of _ "[EvClock, EvPoll fd 2000, EvRead fd [0]]"])
      (simp add: f sys_poll_def sys_read_def)
next
  case (Cons c m)
  then obtain f where f: "fuel = Suc f" by (cases fuel) auto
  have k: "reads fd log < length s" "s ! reads fd log = c" "c \<noteq> CHR 0x00"
    "drop (Suc (reads fd log)) s = null_ended m @ rest"
    using Cons.prems(1,2) by (auto simp: null_ended_def not_le [symmetric])
      (metis append_Cons hd_drop_conv_nth list.sel(1) list.simps(3) not_le drop_all, metis drop_Suc list.sel(3) tl_drop)
  let ?l = "log @ [EvClock, EvPoll fd 2000, EvRead fd [to_byte c]]"
  have "\<exists>new. read_msg_loop (chrome_env s) f fd needle 0 (rx @ [c]) ?l = Done (Inr ((rx @ [c]) @ m), ?l @ new) \<and>
      reads fd new = length m + 1"
    using Cons.prems k f by (intro Cons.IH) auto
  then obtain new where "read_msg_loop (chrome_env s) f fd needle 0 (rx @ [c]) ?l = Done (Inr ((rx @ [c]) @ m), ?l @ new)"
    "reads fd new = length m + 1" by blast
  then show ?case using k Cons.prems(4)
    by (intro exI [of _ "[EvClock, EvPoll fd 2000, EvRead fd [to_byte c]] @ new"])
      (simp add: f sys_poll_def sys_read_def)
qed

lemma chrome_read:
  assumes "0 \<le> br_from b" and "drop (reads (br_from b) log) s = null_ended m @ rest" and "CHR 0x00 \<notin> set m"
    and "length m < 200" and "sv_find m (id_needle i) 0 \<noteq> None"
  shows "\<exists>new. read_msg_matching (chrome_env s) i b log = Done (Inr m, b, log @ new) \<and>
    reads (br_from b) new = length m + 1"
proof -
  have "\<exists>new. read_msg_loop (chrome_env s) 200 (br_from b) (id_needle i) 0 [] (log @ [EvClock])
      = Done (Inr ([] @ m), (log @ [EvClock]) @ new) \<and> reads (br_from b) new = length m + 1"
    by (rule chrome_read_loop)
      (use assms in \<open>simp_all add: CDP_BUFFER_SIZE_def id_needle_def id_field_def key_def\<close>)
  then obtain new where "read_msg_loop (chrome_env s) 200 (br_from b) (id_needle i) 0 [] (log @ [EvClock])
      = Done (Inr ([] @ m), (log @ [EvClock]) @ new)" "reads (br_from b) new = length m + 1" by blast
  then show ?thesis using assms(1)
    by (intro exI [of _ "EvClock # new"]) (simp add: read_msg_matching_def)
qed

definition chrome_bridge :: bridge where
  "chrome_bridge = bridge_init\<lparr>br_to := 5, br_from := 6, br_started := True, br_session := ''S''\<rparr>"

definition shown_button :: "nat result \<times> ax_node fvec \<times> char arr \<times> i32 arr" where
  "shown_button = filter_and_format tree_answer (fv_new 2 ax_node_init) (anew 40 CHR ''x'') (anew MAX_HANDLES 0)"

definition button_node :: ax_node where
  "button_node = hd (fv_as_span (fst (snd shown_button)))"

lemma shown_button_eval:
  "fst shown_button = Inr 29" "length (fv_as_span (fst (snd shown_button))) = 1"
  "n_handle button_node = 1" "n_backend button_node = 42"
  by code_simp+

lemma shown_button_node: "button_node \<in> set (fv_as_span (fst (snd shown_button)))"
  using shown_button_eval(2) unfolding button_node_def
  by (metis hd_in_set list.size(3) zero_neq_one)

lemma script_facts:
  "CHR 0x00 \<notin> set tree_answer" "CHR 0x00 \<notin> set object_answer" "CHR 0x00 \<notin> set call_answer"
  "length tree_answer < 200" "length object_answer < 200" "length call_answer < 200"
  "sv_find tree_answer (id_needle 1) 0 \<noteq> None" "sv_find object_answer (id_needle 2) 0 \<noteq> None"
  "sv_find call_answer (id_needle 3) 0 \<noteq> None"
  "extract_field_str object_answer (key ''objectId'') = ''o''"
  by code_simp+

lemma button_tree:
  obtains log1 where "get_axtree (chrome_env button_script) (fv_new 2 ax_node_init) (anew 40 CHR ''x'') chrome_bridge []
      = Done (Inr 29, fst (snd shown_button), fst (snd (snd shown_button)),
              chrome_bridge\<lparr>br_next := 2, br_handles := snd (snd (snd shown_button))\<rparr>, log1)"
    "reads 6 log1 = length tree_answer + 1"
proof -
  let ?cmd = "axtree_text 1 ''S''"
  let ?l = "[EvWrite 5 (map to_byte ?cmd), EvWrite 5 [0]]"
  have c: "?cmd \<noteq> []" "length ?cmd < 256" by code_simp+
  obtain new where r: "read_msg_matching (chrome_env button_script) 1 (chrome_bridge\<lparr>br_next := 2\<rparr>) ?l
      = Done (Inr tree_answer, chrome_bridge\<lparr>br_next := 2\<rparr>, ?l @ new)" "reads 6 new = length tree_answer + 1"
    using chrome_read [of "chrome_bridge\<lparr>br_next := 2\<rparr>" ?l button_script tree_answer
        "null_ended object_answer @ null_ended call_answer" 1] script_facts
    by (auto simp: chrome_bridge_def button_script_def)
  have "axtree_reply (chrome_env button_script) chrome_bridge []
      = Done (Inr tree_answer, chrome_bridge\<lparr>br_next := 2\<rparr>, ?l @ new)"
    using r c by (simp add: axtree_reply_def bm_get_def bm_bind_def bm_return_def chrome_bridge_def
        bridge_init_def take_req_id_def fmt_cmd_fits chrome_write)
  moreover obtain n2 t2 h2 where "filter_and_format tree_answer (fv_new 2 ax_node_init) (anew 40 CHR ''x'')
      (anew MAX_HANDLES 0) = (Inr 29, n2, t2, h2)"
    using shown_button_eval(1) unfolding shown_button_def by (metis prod.collapse)
  ultimately have "get_axtree (chrome_env button_script) (fv_new 2 ax_node_init)
      (anew 40 CHR ''x'') chrome_bridge [] = Done (Inr 29, fst (snd shown_button), fst (snd (snd shown_button)),
      chrome_bridge\<lparr>br_next := 2, br_handles := snd (snd (snd shown_button))\<rparr>, ?l @ new)"
    by (simp add: get_axtree_def shown_button_def chrome_bridge_def bridge_init_def)
  with that [of "?l @ new"] r(2) show thesis by simp
qed

lemma button_click:
  assumes b: "br_to b = 5" "br_from b = 6" "br_next b = 2" "br_session b = ''S''"
    and h: "handle_node b 1 = Some 42" and log: "reads 6 log = length tree_answer + 1"
  obtains b2 log2 where "click (chrome_env button_script) 1 b log = Done (Inr (), b2, log2)"
proof -
  define cmd where "cmd = session_cmd_text 2 ''S'' ''DOM.resolveNode'' (node_params 42)"
  define cmd2 where "cmd2 = call_text 3 ''S'' ''o'' click_rest"
  have c: "cmd \<noteq> []" "length cmd < 256" "cmd2 \<noteq> []" "length cmd2 < 512"
    "node_params 42 \<noteq> []" "length (node_params 42) < 128" unfolding cmd_def cmd2_def by code_simp+
  define b1 where "b1 = b\<lparr>br_next := 3\<rparr>"
  define b2 where "b2 = b\<lparr>br_next := 4\<rparr>"
  let ?w = "\<lambda>c. [EvWrite 5 (map to_byte c), EvWrite 5 [0]]"
  have "drop (reads (br_from b1) (log @ ?w cmd)) button_script = null_ended object_answer @ null_ended call_answer"
    by (simp add: b1_def b log button_script_def null_ended_def)
  from chrome_read [OF _ this, of 2] obtain n1 where r1:
    "read_msg_matching (chrome_env button_script) 2 b1 (log @ ?w cmd) = Done (Inr object_answer, b1, (log @ ?w cmd) @ n1)"
    "reads 6 n1 = length object_answer + 1" using script_facts by (auto simp: b1_def b)
  define log1 where "log1 = ((log @ ?w cmd) @ n1) @ ?w cmd2"
  have "drop (reads (br_from b2) log1) button_script = null_ended call_answer @ []"
    by (simp add: b2_def log1_def b log button_script_def null_ended_def r1(2))
  from chrome_read [OF _ this, of 3] obtain n2 where r2:
    "read_msg_matching (chrome_env button_script) 3 b2 log1 = Done (Inr call_answer, b2, log1 @ n2)"
    using script_facts by (auto simp: b2_def b)
  have res: "resolve_node (chrome_env button_script) 42 b log = Done (Inr ''o'', b1, (log @ ?w cmd) @ n1)"
    using r1(1) c script_facts(10)
    by (simp add: resolve_node_def bm_get_def bm_bind_def bm_return_def take_req_id_def fmt_cmd_fits chrome_write
        b b1_def cmd_def)
  have "call_node (chrome_env button_script) 512 42 click_rest b log = Done (Inr (), b2, log1 @ n2)"
    using r2 c by (simp add: call_node_def res bm_get_def bm_bind_def bm_ignore_def bm_return_def take_req_id_def
        fmt_cmd_fits chrome_write b b1_def b2_def cmd2_def log1_def)
  with that h show thesis by (simp add: click_def bm_get_def)
qed

text \<open>The first answer of the script, for the request 1.\<close>

theorem first_matching_reply_witness:
  "\<exists>b' log'. read_msg_matching (chrome_env button_script) 1 chrome_bridge [] = Done (Inr tree_answer, b', log') \<and>
    (\<exists>others m. map to_char (received 6 log') = concat (map null_ended others) @ null_ended m \<and>
       tree_answer = take (CDP_BUFFER_SIZE - 1) m)"
proof -
  obtain new where r: "read_msg_matching (chrome_env button_script) 1 chrome_bridge []
      = Done (Inr tree_answer, chrome_bridge, [] @ new)"
    using chrome_read [of chrome_bridge "[]" button_script tree_answer
        "null_ended object_answer @ null_ended call_answer" 1] script_facts
    by (auto simp: chrome_bridge_def button_script_def)
  from first_matching_reply [OF r] r show ?thesis by (auto simp: chrome_bridge_def)
qed

theorem click_resolves_shown_node_witness:
  "\<exists>nodes text b1 log1 r b2 log2 first new.
    get_axtree (chrome_env button_script) (fv_new 2 ax_node_init) (anew 40 CHR ''x'') chrome_bridge []
      = Done (Inr 29, nodes, text, b1, log1) \<and>
    click (chrome_env button_script) 1 b1 log1 = Done (r, b2, log2) \<and> r = Inr () \<and>
    log2 = log1 @ first @ new \<and>
    map to_byte (session_cmd_text 2 ''S'' ''DOM.resolveNode'' (node_params 42)) @ [0] = sent 5 first"
proof -
  obtain log1 where t: "get_axtree (chrome_env button_script) (fv_new 2 ax_node_init) (anew 40 CHR ''x'')
      chrome_bridge [] = Done (Inr 29, fst (snd shown_button), fst (snd (snd shown_button)),
        chrome_bridge\<lparr>br_next := 2, br_handles := snd (snd (snd shown_button))\<rparr>, log1)"
    "reads 6 log1 = length tree_answer + 1" by (rule button_tree)
  let ?b1 = "chrome_bridge\<lparr>br_next := 2, br_handles := snd (snd (snd shown_button))\<rparr>"
  have ok: "bridge_ok chrome_bridge" by (simp add: bridge_ok_def chrome_bridge_def bridge_init_def SESSION_ID_SIZE_def)
  have h: "n_handle button_node \<noteq> 0" "n_backend button_node \<noteq> 0" using shown_button_eval by simp_all
  obtain b2 log2 where k: "click (chrome_env button_script) 1 ?b1 log1 = Done (Inr (), b2, log2)"
    by (rule button_click [of ?b1, OF _ _ _ _ _ t(2)])
      (use handle_node_of_shown [OF t(1) ok shown_button_node h] in
        \<open>auto simp: shown_button_eval chrome_bridge_def\<close>)
  from click_resolves_shown_node [OF t(1) ok shown_button_node h, of "Inr ()" b2 log2] k t(1) show ?thesis
    by (auto simp: shown_button_eval chrome_bridge_def)
qed

end
