(* ===== verification/Ast_Symbols.thy ===== *)
theory Ast_Symbols
  imports String_View Fixed_Vector
begin

text \<open>
  The symbol table of include/axiom/ast.hpp: languages and symbol kinds, the SymbolInfo records that
  record_symbol fills, the lookup of a symbol by name (find_symbol) and the text of the table
  (format_symbols). The name search is related to a normal form of names in which "::" and "." are
  the same separator.
\<close>

section \<open>Languages and kinds\<close>

datatype lang = LUnknown | LC | LCpp | LGo | LRust | LPython | LTypeScript | LJavaScript

datatype symbol_kind = SUnknown | SFunction | SMethod | SClass | SStruct | SEnum | SInterface
  | STypeAlias | SImport

definition MAX_SYMBOLS :: nat where
  "MAX_SYMBOLS = 256"

definition MAX_SYMBOL_NAME_LEN :: nat where
  "MAX_SYMBOL_NAME_LEN = 96"

fun symbol_kind_to_string :: "symbol_kind \<Rightarrow> string" where
  "symbol_kind_to_string SFunction = ''function''"
| "symbol_kind_to_string SMethod = ''method''"
| "symbol_kind_to_string SClass = ''class''"
| "symbol_kind_to_string SStruct = ''struct''"
| "symbol_kind_to_string SEnum = ''enum''"
| "symbol_kind_to_string SInterface = ''interface''"
| "symbol_kind_to_string STypeAlias = ''type''"
| "symbol_kind_to_string SImport = ''import''"
| "symbol_kind_to_string SUnknown = ''unknown''"

text \<open>rfind of a character: the position of its last occurrence.\<close>

fun sv_rfind_char :: "string \<Rightarrow> char \<Rightarrow> nat option" where
  "sv_rfind_char [] c = None"
| "sv_rfind_char (x # xs) c =
     (case sv_rfind_char xs c of
        Some i \<Rightarrow> Some (Suc i)
      | None \<Rightarrow> if x = c then Some 0 else None)"

definition detect_language :: "string \<Rightarrow> lang" where
  "detect_language path =
     (case sv_rfind_char path CHR ''.'' of
        None \<Rightarrow> LUnknown
      | Some dot \<Rightarrow>
          let ext = drop dot path in
          if ext = ''.c'' \<or> ext = ''.h'' then LC
          else if ext \<in> set [''.cpp'', ''.hpp'', ''.cc'', ''.cxx'', ''.hh''] then LCpp
          else if ext = ''.go'' then LGo
          else if ext = ''.rs'' then LRust
          else if ext = ''.py'' then LPython
          else if ext = ''.ts'' \<or> ext = ''.tsx'' then LTypeScript
          else if ext \<in> set [''.js'', ''.jsx'', ''.mjs'', ''.cjs''] then LJavaScript
          else LUnknown)"

lemma sv_rfind_char_last: "c \<notin> set ext \<Longrightarrow> sv_rfind_char (p @ c # ext) c = Some (length p)"
proof -
  assume a: "c \<notin> set ext"
  have "sv_rfind_char ext c = None" if "c \<notin> set ext" for ext
    using that by (induction ext) auto
  with a show ?thesis by (induction p) auto
qed

lemma take_min_length [simp]: "take (min (length xs) n) xs = take n xs"
  by (simp add: min_def)

section \<open>Symbol records\<close>

record symbol_info =
  si_kind :: symbol_kind
  si_name :: "char arr"
  si_name_len :: nat
  si_start_line :: u32
  si_end_line :: u32
  si_start_byte :: u32
  si_end_byte :: u32

definition symbol_info_init :: symbol_info where
  "symbol_info_init =
     \<lparr>si_kind = SUnknown, si_name = anew MAX_SYMBOL_NAME_LEN CHR 0x00, si_name_len = 0,
      si_start_line = 0, si_end_line = 0, si_start_byte = 0, si_end_byte = 0\<rparr>"

definition symbol_name :: "symbol_info \<Rightarrow> string" where
  "symbol_name s = apre (si_name s) (si_name_len s)"

type_synonym symbols = "symbol_info fvec"

text \<open>
  The range of a node: its start and end bytes and the rows of its start and end points, as the
  parser reports them.
\<close>

record extent =
  x_start_byte :: u32
  x_end_byte :: u32
  x_start_row :: u32
  x_end_row :: u32

text \<open>
  record_symbol: a scope is written before the name of a method, both cut so that the name array
  keeps a spare character.
\<close>

definition record_symbol ::
  "symbol_kind \<Rightarrow> string \<Rightarrow> extent \<Rightarrow> symbols \<Rightarrow> string \<Rightarrow> symbols" where
  "record_symbol k name_str node out parent_scope =
     (if name_str = [] \<or> fv_full out then out
      else
        let info = symbol_info_init\<lparr>si_kind := k\<rparr>;
            (name, off) =
              (if parent_scope \<noteq> [] \<and> k = SMethod then
                 let copy_len = min (length parent_scope) (MAX_SYMBOL_NAME_LEN - 3);
                     a = acopy (si_name info) 0 (take copy_len parent_scope)
                 in (aput (aput a copy_len CHR '':'') (copy_len + 1) CHR '':'', copy_len + 2)
               else (si_name info, 0));
            remaining = MAX_SYMBOL_NAME_LEN - 1 - off;
            copy_len = min (length name_str) remaining;
            name' = acopy name off (take copy_len name_str)
        in snd (fv_push_back out
             (info\<lparr>si_name := name', si_name_len := off + copy_len,
                   si_start_line := x_start_row node + 1, si_end_line := x_end_row node + 1,
                   si_start_byte := x_start_byte node, si_end_byte := x_end_byte node\<rparr>)))"

definition stored_name :: "symbol_kind \<Rightarrow> string \<Rightarrow> string \<Rightarrow> string" where
  "stored_name k scope name =
     (if scope \<noteq> [] \<and> k = SMethod
      then (let s = take 93 scope @ ''::'' in s @ take (95 - length s) name)
      else take 95 name)"

definition sym_ok :: "symbol_info \<Rightarrow> bool" where
  "sym_ok s \<longleftrightarrow> alen (si_name s) = MAX_SYMBOL_NAME_LEN \<and> si_name_len s < MAX_SYMBOL_NAME_LEN"

lemma length_symbol_name [simp]: "length (symbol_name s) = si_name_len s"
  by (simp add: symbol_name_def)

lemma record_symbol_spec:
  assumes "name \<noteq> []" and "\<not> fv_full out" and "fv_wf out"
  shows "\<exists>s. fv_as_span (record_symbol k name x out scope) = fv_as_span out @ [s] \<and>
    symbol_name s = stored_name k scope name \<and> si_kind s = k \<and> sym_ok s \<and>
    si_start_byte s = x_start_byte x \<and> si_end_byte s = x_end_byte x \<and>
    si_start_line s = x_start_row x + 1 \<and> si_end_line s = x_end_row x + 1"
proof -
  have room: "length (fv_as_span out) < fv_capacity out"
    using assms(2) by (simp add: fv_full_def)
  note push = conjunct2 [OF fv.push_fits [OF assms(3) room]]
  show ?thesis
  proof (cases "scope \<noteq> [] \<and> k = SMethod")
    case True
    let ?c = "min (length scope) 93"
    let ?a = "aput (aput (acopy (anew 96 CHR 0x00) 0 (take ?c scope)) ?c CHR '':'')
                (Suc ?c) CHR '':''"
    have "apre ?a (Suc (Suc ?c)) = take ?c scope @ [CHR '':'', CHR '':'']"
      using apre_acopy_0 [of "anew 96 CHR 0x00" "take ?c scope"]
      by (simp add: apre_aput_Suc apre_aput_beyond)
    then have p: "apre ?a (Suc (Suc ?c)) = take 93 scope @ ''::''" by simp
    let ?n = "min (length name) (95 - Suc (Suc ?c))"
    have "apre (acopy ?a (Suc (Suc ?c)) (take ?n name)) (Suc (Suc ?c) + length (take ?n name))
        = (take 93 scope @ ''::'') @ take ?n name"
      by (simp only: apre_acopy p)
    then show ?thesis
      using True assms
      by (simp add: record_symbol_def Let_def push symbol_info_init_def symbol_name_def
            stored_name_def sym_ok_def MAX_SYMBOL_NAME_LEN_def numeral_2_eq_2)
  next
    case False
    have "apre (acopy (anew 96 CHR 0x00) 0 (take 95 name)) (length (take 95 name)) = take 95 name"
      by (rule apre_acopy_0)
    then show ?thesis
      using False assms
      by (auto simp: record_symbol_def Let_def push symbol_info_init_def symbol_name_def
            stored_name_def sym_ok_def MAX_SYMBOL_NAME_LEN_def min.commute)
  qed
qed

section \<open>Finding a symbol\<close>

text \<open>
  The loop of the second priority runs over the name and the query together; it stops at a
  mismatch, or when either is used up, and matches when both are.
\<close>

fun sep_match :: "string \<Rightarrow> string \<Rightarrow> bool" where
  "sep_match [] query \<longleftrightarrow> query = []"
| "sep_match (c # cs) [] \<longleftrightarrow> False"
| "sep_match (c # cs) (q # qs) \<longleftrightarrow>
     (if c = CHR '':'' \<and> cs \<noteq> [] \<and> hd cs = CHR '':'' then
        if q = CHR ''.'' then sep_match (tl cs) qs
        else if q = CHR '':'' \<and> qs \<noteq> [] \<and> hd qs = CHR '':'' then sep_match (tl cs) (tl qs)
        else False
      else c = q \<and> sep_match cs qs)"

definition suffix_match :: "string \<Rightarrow> string \<Rightarrow> bool" where
  "suffix_match name query \<longleftrightarrow>
     length name > length query + 2 \<and>
     (let sep_pos = length name - length query - 2
      in substr name sep_pos 2 = ''::'' \<and> drop (sep_pos + 2) name = query)"

definition find_symbol :: "symbol_info list \<Rightarrow> string \<Rightarrow> symbol_info option" where
  "find_symbol syms query =
     (case find (\<lambda>s. symbol_name s = query) syms of
        Some s \<Rightarrow> Some s
      | None \<Rightarrow>
         (case find (\<lambda>s. sep_match (symbol_name s) query) syms of
            Some s \<Rightarrow> Some s
          | None \<Rightarrow> find (\<lambda>s. suffix_match (symbol_name s) query) syms))"

text \<open>Names with every "::" written as ".".\<close>

fun dotted :: "string \<Rightarrow> string" where
  "dotted (a # b # cs) =
     (if a = CHR '':'' \<and> b = CHR '':'' then CHR ''.'' # dotted cs else a # dotted (b # cs))"
| "dotted cs = cs"

lemma sep_match_dotted: "sep_match name query \<Longrightarrow> dotted name = dotted query"
proof (induction name query rule: sep_match.induct)
  case (1 query)
  then show ?case by simp
next
  case (2 c cs)
  then show ?case by simp
next
  case (3 c cs q qs)
  show ?case
  proof (cases "c = CHR '':'' \<and> cs \<noteq> [] \<and> hd cs = CHR '':''")
    case True
    then obtain cs' where cs: "cs = CHR '':'' # cs'" by (cases cs) auto
    show ?thesis
    proof (cases "q = CHR ''.''")
      case True
      with 3 cs \<open>c = _ \<and> _\<close> have "dotted cs' = dotted qs" by simp
      with True cs \<open>c = _ \<and> _\<close> show ?thesis by (cases qs) auto
    next
      case False
      with "3.prems" cs \<open>c = _ \<and> _\<close> obtain qs' where qs: "q = CHR '':''" "qs = CHR '':'' # qs'"
        by (cases qs) (auto split: if_splits)
      with 3 cs \<open>c = _ \<and> _\<close> False have "dotted cs' = dotted qs'" by simp
      with qs cs \<open>c = _ \<and> _\<close> show ?thesis by simp
    qed
  next
    case False
    with "3.prems" have "c = q" "sep_match cs qs" by (simp_all only: sep_match.simps if_False)
    with 3 False have d: "dotted cs = dotted qs" by simp
    have "\<not> (q = CHR '':'' \<and> qs \<noteq> [] \<and> hd qs = CHR '':'')"
    proof
      assume q: "q = CHR '':'' \<and> qs \<noteq> [] \<and> hd qs = CHR '':''"
      with \<open>c = q\<close> False have "cs = [] \<or> hd cs \<noteq> CHR '':''" by auto
      with \<open>sep_match cs qs\<close> q show False
        by (cases cs; cases qs) (auto split: if_splits)
    qed
    with d \<open>c = q\<close> False show ?thesis
      by (cases cs; cases qs) auto
  qed
qed

text \<open>A name without dots matches every query with its normal form.\<close>

lemma dotted_sep_match:
  "CHR ''.'' \<notin> set name \<Longrightarrow> dotted name = dotted query \<Longrightarrow> sep_match name query"
proof (induction name query rule: sep_match.induct)
  case (1 query)
  then show ?case by (cases query rule: dotted.cases) (auto split: if_splits)
next
  case (2 c cs)
  then show ?case by (cases cs) (auto split: if_splits)
next
  case (3 c cs q qs)
  show ?case
  proof (cases "c = CHR '':'' \<and> cs \<noteq> [] \<and> hd cs = CHR '':''")
    case True
    then obtain cs' where cs: "cs = CHR '':'' # cs'" by (cases cs) auto
    show ?thesis
    proof (cases "q = CHR ''.''")
      case True
      then have "dotted cs' = dotted qs"
        using "3.prems"(2) cs \<open>c = _ \<and> _\<close> by (cases qs) auto
      with 3 True cs \<open>c = _ \<and> _\<close> show ?thesis by simp
    next
      case False
      then obtain qs' where qs: "q = CHR '':''" "qs = CHR '':'' # qs'"
        using "3.prems"(2) cs \<open>c = _ \<and> _\<close> by (cases qs) (auto split: if_splits)
      then have "dotted cs' = dotted qs'"
        using "3.prems"(2) cs \<open>c = _ \<and> _\<close> by simp
      with 3 False qs cs \<open>c = _ \<and> _\<close> show ?thesis by simp
    qed
  next
    case False
    have dn: "dotted (c # cs) = c # dotted cs"
      using False by (cases cs) auto
    have "\<not> (q = CHR '':'' \<and> qs \<noteq> [] \<and> hd qs = CHR '':'')"
    proof
      assume q: "q = CHR '':'' \<and> qs \<noteq> [] \<and> hd qs = CHR '':''"
      then have "hd (dotted (q # qs)) = CHR ''.''" by (cases qs) auto
      then have "c = CHR ''.''" using "3.prems"(2) dn by (metis list.sel(1))
      with "3.prems"(1) show False by simp
    qed
    then have "dotted (q # qs) = q # dotted qs" by (cases qs) auto
    with "3.prems"(2) dn have "c = q" "dotted cs = dotted qs" by simp_all
    moreover from this "3.prems"(1) False have "sep_match cs qs" by (intro "3.IH"(3)) auto
    ultimately show ?thesis using False by (simp only: sep_match.simps if_False simp_thms)
  qed
qed

lemma suffix_match_iff:
  "suffix_match name query \<longleftrightarrow> (\<exists>scope. scope \<noteq> [] \<and> name = scope @ ''::'' @ query)"
proof
  assume a: "suffix_match name query"
  let ?p = "length name - length query - 2"
  have s: "take 2 (drop ?p name) = ''::''" "drop 2 (drop ?p name) = query"
    using a by (simp_all add: suffix_match_def substr_def Let_def add.commute)
  have "name = take ?p name @ ''::'' @ query"
    using s append_take_drop_id [of 2 "drop ?p name"] append_take_drop_id [of ?p name] by simp
  moreover have "take ?p name \<noteq> []"
    using a by (auto simp: suffix_match_def Let_def)
  ultimately show "\<exists>scope. scope \<noteq> [] \<and> name = scope @ ''::'' @ query" by blast
next
  assume "\<exists>scope. scope \<noteq> [] \<and> name = scope @ ''::'' @ query"
  then obtain scope where "scope \<noteq> []" "name = scope @ ''::'' @ query" by blast
  then show "suffix_match name query"
    by (cases scope) (simp_all add: suffix_match_def substr_def Let_def)
qed

lemma find_SomeD: "find P xs = Some x \<Longrightarrow> x \<in> set xs \<and> P x"
  by (induction xs) (auto split: if_splits)

definition names :: "symbol_info \<Rightarrow> string \<Rightarrow> bool" where
  "names s query \<longleftrightarrow> dotted (symbol_name s) = dotted query \<or>
     (\<exists>scope. scope \<noteq> [] \<and> symbol_name s = scope @ ''::'' @ query)"


definition sym_named :: "symbol_kind \<Rightarrow> string \<Rightarrow> nat \<Rightarrow> symbol_info" where
  "sym_named k name line =
     symbol_info_init\<lparr>si_kind := k, si_name := acopy (anew MAX_SYMBOL_NAME_LEN CHR 0x00) 0 name,
       si_name_len := length name, si_start_line := of_nat line, si_end_line := of_nat line\<rparr>"

lemma symbol_name_named [simp]: "symbol_name (sym_named k name line) = name"
  by (simp add: sym_named_def symbol_name_def apre_acopy_0)


section \<open>The text of the table\<close>

text \<open>
  Writing into the output span: a memcpy that leaves the span is undefined behaviour (None), and
  to_chars reports an error when the digits do not fit.
\<close>

definition put_chk :: "char arr \<times> nat \<Rightarrow> string \<Rightarrow> (char arr \<times> nat) option" where
  "put_chk out s = map_option (\<lambda>b. (b, snd out + length s)) (acopy_chk (fst out) (snd out) s)"

definition to_chars_at :: "char arr \<times> nat \<Rightarrow> u32 \<Rightarrow> (char arr \<times> nat) option" where
  "to_chars_at out w =
     (let ds = decimal (unat w)
      in if snd out + length ds \<le> alen (fst out)
         then Some (acopy (fst out) (snd out) ds, snd out + length ds) else None)"

definition format_symbol :: "symbol_info \<Rightarrow> char arr \<times> nat \<Rightarrow> (char arr \<times> nat) result run" where
  "format_symbol s out0 =
     (let kind_str = symbol_kind_to_string (si_kind s);
          name_str = symbol_name s;
          needed = length kind_str + 1 + length name_str + 32
      in if snd out0 + needed \<ge> alen (fst out0) then Done (Inl BufferOverflow)
         else
           run_bind (run_of (do { out \<leftarrow> put_chk out0 kind_str;
                                  out \<leftarrow> put_chk out '' '';
                                  out \<leftarrow> put_chk out name_str;
                                  put_chk out '' [L'' }))
            (\<lambda>out1. case to_chars_at out1 (si_start_line s) of
               None \<Rightarrow> Done (Inl BufferOverflow)
             | Some out2 \<Rightarrow>
                 run_bind (run_of (put_chk out2 ''-L''))
                  (\<lambda>out3. case to_chars_at out3 (si_end_line s) of
                     None \<Rightarrow> Done (Inl BufferOverflow)
                   | Some out4 \<Rightarrow>
                       run_bind (run_of (put_chk out4 ('']'' @ [CHR 0x0A])))
                        (\<lambda>out5. Done (Inr out5)))))"

text \<open>The loop over the table: the text written and the returned offset, or the error.\<close>

fun format_loop :: "symbol_info list \<Rightarrow> char arr \<times> nat \<Rightarrow> (char arr \<times> nat) result run" where
  "format_loop [] out = Done (Inr out)"
| "format_loop (s # syms) out =
     run_bind (format_symbol s out)
       (\<lambda>r. case r of Inl e \<Rightarrow> Done (Inl e) | Inr out' \<Rightarrow> format_loop syms out')"

definition format_symbols :: "symbols \<Rightarrow> char arr \<Rightarrow> (char arr \<times> nat) result run" where
  "format_symbols syms out_buf = format_loop (fv_as_span syms) (out_buf, 0)"

text \<open>The line of a symbol and the largest line there can be.\<close>

definition symbol_line :: "symbol_info \<Rightarrow> string" where
  "symbol_line s =
     symbol_kind_to_string (si_kind s) @ '' '' @ symbol_name s @ '' [L'' @
     decimal (unat (si_start_line s)) @ ''-L'' @ decimal (unat (si_end_line s)) @ '']'' @ [CHR 0x0A]"

definition line_needed :: "symbol_info \<Rightarrow> nat" where
  "line_needed s = length (symbol_kind_to_string (si_kind s)) + 1 + si_name_len s + 32"

fun table_fits :: "nat \<Rightarrow> symbol_info list \<Rightarrow> bool" where
  "table_fits room [] \<longleftrightarrow> True"
| "table_fits room (s # syms) \<longleftrightarrow>
     line_needed s < room \<and> table_fits (room - length (symbol_line s)) syms"

lemma length_symbol_line: "length (symbol_line s) \<le> line_needed s"
  using length_decimal_u32 [of "si_start_line s"] length_decimal_u32 [of "si_end_line s"]
  by (simp add: symbol_line_def line_needed_def)

lemma put_chk_fits:
  "snd out + length s \<le> alen (fst out) \<Longrightarrow>
   put_chk out s = Some (acopy (fst out) (snd out) s, snd out + length s)"
  by (simp add: put_chk_def acopy_chk_def)

text \<open>One line: it fits when the estimate does, and then the writes append exactly the line.\<close>

lemma acopy_acopy:
  "acopy (acopy b i s) (i + length s) t = acopy b i (s @ t)"
  by (auto simp: acopy_def fun_eq_iff nth_append intro!: arr.equality)

lemma format_symbol_fits:
  assumes "line_needed s < alen b - off"
  shows "format_symbol s (b, off) =
    Done (Inr (acopy b off (symbol_line s), off + length (symbol_line s)))"
proof -
  let ?k = "symbol_kind_to_string (si_kind s)" and ?d1 = "decimal (unat (si_start_line s))"
  let ?d2 = "decimal (unat (si_end_line s))"
  have l: "length ?d1 \<le> 10" "length ?d2 \<le> 10" by (rule length_decimal_u32)+
  have n: "off + (length ?k + si_name_len s + 33) < alen b"
    using assms by (simp add: line_needed_def)
  have step: "put_chk (acopy b off t, off + length t) u
      = Some (acopy b off (t @ u), off + length (t @ u))"
    if "off + length t + length u \<le> alen b" for t u
    using that by (simp add: put_chk_fits acopy_acopy add.assoc)
  have num: "to_chars_at (acopy b off t, off + length t) w
      = Some (acopy b off (t @ decimal (unat w)), off + length (t @ decimal (unat w)))"
    if "off + length t + length (decimal (unat w)) \<le> alen b" for t w
    using that by (simp add: to_chars_at_def acopy_acopy add.assoc Let_def)
  have 1: "put_chk (b, off) ?k = Some (acopy b off ?k, off + length ?k)"
    using n by (simp add: put_chk_fits)
  have 2: "put_chk (acopy b off ?k, off + length ?k) '' ''
      = Some (acopy b off (?k @ '' ''), off + length (?k @ '' ''))"
    using n by (intro step) simp
  have 3: "put_chk (acopy b off (?k @ '' ''), off + length (?k @ '' '')) (symbol_name s)
      = Some (acopy b off ((?k @ '' '') @ symbol_name s), off + length ((?k @ '' '') @ symbol_name s))"
    using n by (intro step) simp
  let ?t = "((?k @ '' '') @ symbol_name s) @ '' [L''"
  have 4: "put_chk (acopy b off ((?k @ '' '') @ symbol_name s), off + length ((?k @ '' '') @ symbol_name s))
      '' [L'' = Some (acopy b off ?t, off + length ?t)"
    using n by (intro step) simp
  have 5: "to_chars_at (acopy b off ?t, off + length ?t) (si_start_line s)
      = Some (acopy b off (?t @ ?d1), off + length (?t @ ?d1))"
    using n l by (intro num) simp
  have 6: "put_chk (acopy b off (?t @ ?d1), off + length (?t @ ?d1)) ''-L''
      = Some (acopy b off ((?t @ ?d1) @ ''-L''), off + length ((?t @ ?d1) @ ''-L''))"
    using n l by (intro step) simp
  let ?u = "(?t @ ?d1) @ ''-L''"
  have 7: "to_chars_at (acopy b off ?u, off + length ?u) (si_end_line s)
      = Some (acopy b off (?u @ ?d2), off + length (?u @ ?d2))"
    using n l by (intro num) simp
  have 8: "put_chk (acopy b off (?u @ ?d2), off + length (?u @ ?d2)) ('']'' @ [CHR 0x0A])
      = Some (acopy b off ((?u @ ?d2) @ '']'' @ [CHR 0x0A]),
              off + length ((?u @ ?d2) @ '']'' @ [CHR 0x0A]))"
    using n l by (intro step) simp
  have e: "(?u @ ?d2) @ '']'' @ [CHR 0x0A] = symbol_line s"
    by (simp add: symbol_line_def)
  have g: "\<not> off + (length ?k + 1 + length (symbol_name s) + 32) \<ge> alen b"
    using n by simp
  show ?thesis
    unfolding format_symbol_def Let_def fst_conv snd_conv if_not_P [OF g] 1 bind.bind_lunit 2 3 4
      run_of.simps run_bind.simps option.case 5 6 7 8 e ..
qed

lemma format_loop_table:
  "format_loop syms (b, off) =
     (if table_fits (alen b - off) syms
      then Done (Inr (acopy b off (concat (map symbol_line syms)),
                      off + length (concat (map symbol_line syms))))
      else Done (Inl BufferOverflow))"
proof (induction syms arbitrary: b off)
  case Nil
  show ?case by simp
next
  case (Cons s syms)
  show ?case
  proof (cases "line_needed s < alen b - off")
    case True
    have "alen b - (off + length (symbol_line s)) = alen b - off - length (symbol_line s)" by simp
    with True Cons.IH show ?thesis
      by (simp add: format_symbol_fits acopy_acopy add.assoc)
  next
    case False
    then have "off + (length (symbol_kind_to_string (si_kind s)) + 1 + length (symbol_name s) + 32)
        \<ge> alen b"
      by (simp add: line_needed_def)
    then have "format_symbol s (b, off) = Done (Inl BufferOverflow)"
      by (simp add: format_symbol_def Let_def)
    with False show ?thesis by simp
  qed
qed

text \<open>
  C30. format_symbols never leaves the output span. It writes exactly one line per symbol, in table
  order, and returns the length of the text; it fails, with BufferOverflow, exactly when at some
  symbol its estimate (32 characters more than the kind and the name) does not fit.
\<close>

theorem format_symbols_text:
  "format_symbols syms buf =
     (if table_fits (alen buf) (fv_as_span syms)
      then Done (Inr (acopy buf 0 (concat (map symbol_line (fv_as_span syms))),
                      length (concat (map symbol_line (fv_as_span syms)))))
      else Done (Inl BufferOverflow))"
  by (simp add: format_symbols_def format_loop_table)

end
