(* ===== verification/Ast_Engine.thy ===== *)
theory Ast_Engine
  imports Ast_Symbols
begin

text \<open>
  AstEngine of include/axiom/ast.hpp: the recursive collection of symbols over a syntax tree, and
  the extraction, slicing and patching built on it. The tree-sitter library is a parameter, the
  record \<open>ts_api\<close>: the functions of its C interface that the code calls. The recursion over the
  nodes takes fuel; any bound on the depth of the tree is enough.
\<close>

section \<open>The tree-sitter interface\<close>

datatype grammar = G_c | G_cpp | G_go | G_rust | G_python | G_typescript

text \<open>
  \<open>ts_children\<close> and \<open>ts_named\<close> are the nodes that ts_node_child and ts_node_named_child give for the
  indices below the counts; a field that a node does not have is a null node.
\<close>

record 'n ts_api =
  ts_set_language :: "grammar \<Rightarrow> bool"
  ts_parse :: "grammar \<Rightarrow> string \<Rightarrow> 'n option"
  ts_null :: 'n
  ts_is_null :: "'n \<Rightarrow> bool"
  ts_type :: "'n \<Rightarrow> string"
  ts_children :: "'n \<Rightarrow> 'n list"
  ts_named :: "'n \<Rightarrow> 'n list"
  ts_field :: "'n \<Rightarrow> string \<Rightarrow> 'n"
  ts_extent :: "'n \<Rightarrow> extent"

text \<open>ts_node_type reads through the node's tree: on a null node that is undefined behaviour.\<close>

definition node_type :: "'n ts_api \<Rightarrow> 'n \<Rightarrow> string run" where
  "node_type ts n = (if ts_is_null ts n then Fault else Done (ts_type ts n))"

text \<open>
  The engine owns the parser that ts_parser_new made, if it made one; the list holds the parsers that
  were given to ts_parser_delete. The pair of a move is the new engine and the old one.
\<close>

definition engine_new :: "'p option \<Rightarrow> 'p option" where
  "engine_new made = made"

definition engine_drop :: "'p option \<Rightarrow> 'p list \<Rightarrow> 'p option \<times> 'p list" where
  "engine_drop p deleted = (case p of None \<Rightarrow> (None, deleted) | Some x \<Rightarrow> (None, deleted @ [x]))"

definition engine_move :: "'p option \<Rightarrow> 'p option \<times> 'p option" where
  "engine_move other = (other, None)"

definition engine_assign ::
  "'p option \<Rightarrow> 'p option \<Rightarrow> 'p list \<Rightarrow> ('p option \<times> 'p option) \<times> 'p list" where
  "engine_assign this other deleted = (engine_move other, snd (engine_drop this deleted))"

text \<open>After an assignment every parser is deleted once: the replaced one then, the moved one later.\<close>

lemma engine_assign_deletes_once:
  "(let ((this1, other1), d1) = engine_assign this other deleted;
        (_, d2) = engine_drop other1 d1
    in snd (engine_drop this1 d2)) = deleted @ (case this of None \<Rightarrow> [] | Some x \<Rightarrow> [x]) @
      (case other of None \<Rightarrow> [] | Some x \<Rightarrow> [x])"
  by (simp add: engine_assign_def engine_move_def engine_drop_def split: option.splits)

definition get_language :: "lang \<Rightarrow> grammar option" where
  "get_language l =
     (case l of LC \<Rightarrow> Some G_c | LCpp \<Rightarrow> Some G_cpp | LGo \<Rightarrow> Some G_go | LRust \<Rightarrow> Some G_rust
      | LPython \<Rightarrow> Some G_python | LTypeScript \<Rightarrow> Some G_typescript
      | LJavaScript \<Rightarrow> Some G_typescript | LUnknown \<Rightarrow> None)"

section \<open>Collecting symbols\<close>

definition node_text :: "'n ts_api \<Rightarrow> 'n \<Rightarrow> string \<Rightarrow> string" where
  "node_text ts node src =
     (if ts_is_null ts node then []
      else let sb = unat (x_start_byte (ts_extent ts node));
               eb = unat (x_end_byte (ts_extent ts node))
           in if sb \<ge> length src \<or> eb > length src \<or> sb \<ge> eb then []
              else substr src sb (eb - sb))"

fun first_found :: "'n ts_api \<Rightarrow> ('n \<Rightarrow> 'n run) \<Rightarrow> 'n list \<Rightarrow> 'n run" where
  "first_found ts g [] = Done (ts_null ts)"
| "first_found ts g (c # cs) =
     run_bind (g c) (\<lambda>res. if \<not> ts_is_null ts res then Done res else first_found ts g cs)"

primrec find_descendant :: "'n ts_api \<Rightarrow> string list \<Rightarrow> nat \<Rightarrow> 'n \<Rightarrow> 'n run" where
  "find_descendant ts types 0 node = Out_Of_Fuel"
| "find_descendant ts types (Suc fuel) node =
     (if ts_is_null ts node then Done node
      else if ts_type ts node \<in> set types then Done node
      else first_found ts (find_descendant ts types fuel) (ts_children ts node))"

fun each_node :: "('n \<Rightarrow> symbols \<Rightarrow> symbols run) \<Rightarrow> 'n list \<Rightarrow> symbols \<Rightarrow> symbols run" where
  "each_node g [] out = Done out"
| "each_node g (n # ns) out = run_bind (g n out) (each_node g ns)"

definition name_of :: "'n ts_api \<Rightarrow> string \<Rightarrow> 'n \<Rightarrow> string" where
  "name_of ts src node = node_text ts (ts_field ts node ''name'') src"

text \<open>remove_suffix while the last character is one of the given ones.\<close>

definition strip_back :: "char list \<Rightarrow> string \<Rightarrow> string" where
  "strip_back cs s = rev (dropWhile (\<lambda>c. c \<in> set cs) (rev s))"

definition CR :: char where
  "CR = CHR 0x0D"

definition LF :: char where
  "LF = CHR 0x0A"

definition record_node ::
  "'n ts_api \<Rightarrow> symbol_kind \<Rightarrow> string \<Rightarrow> 'n \<Rightarrow> symbols \<Rightarrow> string \<Rightarrow> symbols" where
  "record_node ts k name node out scope = record_symbol k name (ts_extent ts node) out scope"

text \<open>The members of a class or an impl block: the named children of the "body" field.\<close>

definition collect_body ::
  "'n ts_api \<Rightarrow> ('n \<Rightarrow> symbols \<Rightarrow> string \<Rightarrow> symbols run) \<Rightarrow> 'n \<Rightarrow> symbols \<Rightarrow> string \<Rightarrow> symbols run" where
  "collect_body ts rec node out class_name =
     (let body = ts_field ts node ''body''
      in if ts_is_null ts body then Done out
         else each_node (\<lambda>n o'. rec n o' class_name) (ts_named ts body) out)"

text \<open>
  The branches of each language: None when no branch returns, so that the children are visited.
  \<open>rec\<close> is the recursive call.
\<close>

definition collect_rust ::
  "'n ts_api \<Rightarrow> ('n \<Rightarrow> symbols \<Rightarrow> string \<Rightarrow> symbols run) \<Rightarrow> string \<Rightarrow> 'n \<Rightarrow> symbols \<Rightarrow> string \<Rightarrow>
   symbols run option" where
  "collect_rust ts rec src node out scope =
     (let type = ts_type ts node in
      if type = ''function_item'' then
        Some (Done (record_node ts (if scope = [] then SFunction else SMethod)
                      (name_of ts src node) node out scope))
      else if type = ''struct_item'' then
        Some (Done (record_node ts SStruct (name_of ts src node) node out scope))
      else if type = ''enum_item'' then
        Some (Done (record_node ts SEnum (name_of ts src node) node out scope))
      else if type = ''trait_item'' then
        Some (Done (record_node ts SInterface (name_of ts src node) node out scope))
      else if type = ''use_declaration'' then
        Some (Done (record_node ts SImport (strip_back [LF, CR, CHR '';''] (node_text ts node src))
                      node out scope))
      else if type = ''impl_item'' then
        Some (collect_body ts rec node out (node_text ts (ts_field ts node ''type'') src))
      else None)"

definition go_type_spec ::
  "'n ts_api \<Rightarrow> string \<Rightarrow> string \<Rightarrow> 'n \<Rightarrow> symbols \<Rightarrow> symbols run" where
  "go_type_spec ts src scope spec out =
     run_bind (node_type ts spec) (\<lambda>t.
       if t = ''type_spec'' then
         run_bind (node_type ts (ts_field ts spec ''type'')) (\<lambda>tt.
           Done (record_node ts
                   (if tt = ''struct_type'' then SStruct
                    else if tt = ''interface_type'' then SInterface else STypeAlias)
                   (name_of ts src spec) spec out scope))
       else Done out)"

definition collect_go ::
  "'n ts_api \<Rightarrow> string \<Rightarrow> 'n \<Rightarrow> symbols \<Rightarrow> string \<Rightarrow> symbols run option" where
  "collect_go ts src node out scope =
     (let type = ts_type ts node in
      if type = ''function_declaration'' then
        Some (Done (record_node ts SFunction (name_of ts src node) node out scope))
      else if type = ''method_declaration'' then
        Some (Done (record_node ts SMethod (name_of ts src node) node out scope))
      else if type = ''type_declaration'' then
        Some (each_node (go_type_spec ts src scope) (ts_named ts node) out)
      else if type = ''import_declaration'' then
        Some (Done (record_node ts SImport (strip_back [LF, CR] (node_text ts node src))
                      node out scope))
      else None)"

definition c_function ::
  "'n ts_api \<Rightarrow> nat \<Rightarrow> string \<Rightarrow> 'n \<Rightarrow> symbols \<Rightarrow> string \<Rightarrow> symbols run" where
  "c_function ts fuel src node out scope =
     run_bind (find_descendant ts
         [''identifier'', ''field_identifier'', ''qualified_identifier'', ''destructor_name'']
         fuel (ts_field ts node ''declarator''))
      (\<lambda>ident. run_bind (if scope \<noteq> [] then Done True
                      else run_bind (node_type ts ident) (\<lambda>t. Done (t = ''qualified_identifier'')))
        (\<lambda>is_method. Done (record_node ts (if is_method then SMethod else SFunction)
                            (node_text ts ident src) node out scope)))"

text \<open>The children of a template or a declaration that are of one of the given types.\<close>

definition visit_if ::
  "'n ts_api \<Rightarrow> ('n \<Rightarrow> symbols \<Rightarrow> string \<Rightarrow> symbols run) \<Rightarrow> string list \<Rightarrow> string \<Rightarrow> 'n \<Rightarrow> symbols \<Rightarrow>
   symbols run" where
  "visit_if ts rec types scope child out =
     run_bind (node_type ts child) (\<lambda>ct. if ct \<in> set types then rec child out scope else Done out)"

definition collect_c ::
  "'n ts_api \<Rightarrow> nat \<Rightarrow> ('n \<Rightarrow> symbols \<Rightarrow> string \<Rightarrow> symbols run) \<Rightarrow> string \<Rightarrow> 'n \<Rightarrow> symbols \<Rightarrow> string \<Rightarrow>
   symbols run option" where
  "collect_c ts fuel rec src node out scope =
     (let type = ts_type ts node in
      if type = ''function_definition'' then Some (c_function ts fuel src node out scope)
      else if type = ''class_specifier'' \<or> type = ''struct_specifier'' then
        Some (let class_name = name_of ts src node;
                  k = (if type = ''class_specifier'' then SClass else SStruct)
              in collect_body ts rec node (record_node ts k class_name node out scope) class_name)
      else if type = ''enum_specifier'' then
        Some (Done (record_node ts SEnum (name_of ts src node) node out scope))
      else if type = ''type_definition'' then
        Some (run_bind (find_descendant ts [''type_identifier'', ''identifier''] fuel
                          (ts_field ts node ''declarator''))
               (\<lambda>ident. Done (record_node ts STypeAlias (node_text ts ident src) node out scope)))
      else if type = ''preproc_include'' then
        Some (Done (record_node ts SImport (strip_back [LF, CR] (node_text ts node src))
                      node out scope))
      else if type = ''template_declaration'' then
        Some (each_node
               (visit_if ts rec [''function_definition'', ''class_specifier'', ''struct_specifier'']
                  scope) (ts_named ts node) out)
      else if type = ''declaration'' then
        Some (each_node
               (visit_if ts rec [''class_specifier'', ''struct_specifier'', ''enum_specifier'']
                  scope) (ts_named ts node) out)
      else None)"

definition collect_python ::
  "'n ts_api \<Rightarrow> ('n \<Rightarrow> symbols \<Rightarrow> string \<Rightarrow> symbols run) \<Rightarrow> string \<Rightarrow> 'n \<Rightarrow> symbols \<Rightarrow> string \<Rightarrow>
   symbols run option" where
  "collect_python ts rec src node out scope =
     (let type = ts_type ts node in
      if type = ''function_definition'' then
        Some (Done (record_node ts (if scope = [] then SFunction else SMethod)
                      (name_of ts src node) node out scope))
      else if type = ''class_definition'' then
        Some (let class_name = name_of ts src node
              in collect_body ts rec node (record_node ts SClass class_name node out scope) class_name)
      else if type = ''import_statement'' \<or> type = ''import_from_statement'' then
        Some (Done (record_node ts SImport (strip_back [LF, CR] (node_text ts node src))
                      node out scope))
      else None)"

definition collect_ts ::
  "'n ts_api \<Rightarrow> ('n \<Rightarrow> symbols \<Rightarrow> string \<Rightarrow> symbols run) \<Rightarrow> string \<Rightarrow> 'n \<Rightarrow> symbols \<Rightarrow> string \<Rightarrow>
   symbols run option" where
  "collect_ts ts rec src node out scope =
     (let type = ts_type ts node in
      if type = ''function_declaration'' \<or> type = ''function_signature'' then
        Some (Done (record_node ts (if scope = [] then SFunction else SMethod)
                      (name_of ts src node) node out scope))
      else if type = ''method_definition'' \<or> type = ''method_signature'' then
        Some (Done (record_node ts SMethod (name_of ts src node) node out scope))
      else if type = ''class_declaration'' \<or> type = ''class'' then
        Some (let class_name = name_of ts src node
              in collect_body ts rec node (record_node ts SClass class_name node out scope) class_name)
      else if type = ''interface_declaration'' then
        Some (Done (record_node ts SInterface (name_of ts src node) node out scope))
      else if type = ''type_alias_declaration'' then
        Some (Done (record_node ts STypeAlias (name_of ts src node) node out scope))
      else if type = ''enum_declaration'' then
        Some (Done (record_node ts SEnum (name_of ts src node) node out scope))
      else if type = ''import_statement'' then
        Some (Done (record_node ts SImport (strip_back [LF, CR, CHR '';''] (node_text ts node src))
                      node out scope))
      else if type = ''export_statement'' then
        (let decl = ts_field ts node ''declaration''
         in if ts_is_null ts decl then None else Some (rec decl out scope))
      else None)"

definition collect_lang ::
  "'n ts_api \<Rightarrow> nat \<Rightarrow> ('n \<Rightarrow> symbols \<Rightarrow> string \<Rightarrow> symbols run) \<Rightarrow> string \<Rightarrow> lang \<Rightarrow> 'n \<Rightarrow> symbols \<Rightarrow>
   string \<Rightarrow> symbols run option" where
  "collect_lang ts fuel rec src l node out scope =
     (case l of
        LRust \<Rightarrow> collect_rust ts rec src node out scope
      | LGo \<Rightarrow> collect_go ts src node out scope
      | LC \<Rightarrow> collect_c ts fuel rec src node out scope
      | LCpp \<Rightarrow> collect_c ts fuel rec src node out scope
      | LPython \<Rightarrow> collect_python ts rec src node out scope
      | LTypeScript \<Rightarrow> collect_ts ts rec src node out scope
      | LJavaScript \<Rightarrow> collect_ts ts rec src node out scope
      | LUnknown \<Rightarrow> None)"

primrec collect_symbols_recursive ::
  "'n ts_api \<Rightarrow> string \<Rightarrow> lang \<Rightarrow> nat \<Rightarrow> 'n \<Rightarrow> symbols \<Rightarrow> string \<Rightarrow> symbols run" where
  "collect_symbols_recursive ts src l 0 = (\<lambda>node out scope. Out_Of_Fuel)"
| "collect_symbols_recursive ts src l (Suc fuel) = (\<lambda>node out scope.
     if ts_is_null ts node \<or> fv_full out then Done out
     else (case collect_lang ts fuel (collect_symbols_recursive ts src l fuel) src l node out scope of
             Some r \<Rightarrow> r
           | None \<Rightarrow> each_node (\<lambda>n o'. collect_symbols_recursive ts src l fuel n o' scope)
                       (ts_named ts node) out))"

section \<open>The engine\<close>

text \<open>
  \<open>parser\<close> is whether the constructor's ts_parser_new gave a parser. The table is cleared only once
  the source has been parsed.
\<close>

definition extract_symbols ::
  "'n ts_api \<Rightarrow> nat \<Rightarrow> bool \<Rightarrow> string \<Rightarrow> lang \<Rightarrow> symbols \<Rightarrow> (nat result \<times> symbols) run" where
  "extract_symbols ts fuel parser source l out =
     (if \<not> parser then Done (Inl AstError, out)
      else case get_language l of
        None \<Rightarrow> Done (Inl InvalidArgument, out)
      | Some g \<Rightarrow>
          if \<not> ts_set_language ts g then Done (Inl AstError, out)
          else case ts_parse ts g (take (unat (of_nat (length source) :: u32)) source) of
            None \<Rightarrow> Done (Inl AstError, out)
          | Some root \<Rightarrow>
              run_bind (collect_symbols_recursive ts source l fuel root (fv_clear out) [])
                (\<lambda>out'. Done (Inr (fv_size out'), out')))"

definition new_symbols :: symbols where
  "new_symbols = fv_new MAX_SYMBOLS symbol_info_init"

record symbol_slice =
  sl_start_line :: u32
  sl_end_line :: u32
  sl_content :: string

text \<open>
  slice_symbol: the length is computed in 32 bits, and substr past the end of the source throws out
  of a noexcept function.
\<close>

definition slice_symbol ::
  "'n ts_api \<Rightarrow> nat \<Rightarrow> bool \<Rightarrow> string \<Rightarrow> lang \<Rightarrow> string \<Rightarrow> symbol_slice result run" where
  "slice_symbol ts fuel parser source l name =
     run_bind (extract_symbols ts fuel parser source l new_symbols)
       (\<lambda>(res, symbols).
          case res of
            Inl e \<Rightarrow> Done (Inl e)
          | Inr _ \<Rightarrow>
              (case find_symbol (fv_as_span symbols) name of
                 None \<Rightarrow> Done (Inl NotFound)
               | Some matched \<Rightarrow>
                   let len = unat (si_end_byte matched - si_start_byte matched);
                       start = unat (si_start_byte matched)
                   in if start > length source then Fault
                      else Done (Inr \<lparr>sl_start_line = si_start_line matched,
                                      sl_end_line = si_end_line matched,
                                      sl_content = substr source start len\<rparr>)))"

record patch_result =
  p_old_start_line :: u32
  p_old_end_line :: u32
  p_new_end_line :: u32

definition newlines :: "string \<Rightarrow> nat" where
  "newlines s = length (filter (\<lambda>c. c = LF) s)"

text \<open>
  patch_symbol: the sizes are size_t, so a symbol that ended behind the source would wrap the suffix
  length; the copies read the source at the symbol's offsets (Fault outside it).
\<close>

definition patch_symbol ::
  "'n ts_api \<Rightarrow> nat \<Rightarrow> bool \<Rightarrow> string \<Rightarrow> lang \<Rightarrow> string \<Rightarrow> string \<Rightarrow> char arr \<Rightarrow>
   ((nat \<times> patch_result) result \<times> char arr) run" where
  "patch_symbol ts fuel parser source l name replacement dest_buf =
     run_bind (extract_symbols ts fuel parser source l new_symbols)
       (\<lambda>(res, symbols).
          case res of
            Inl e \<Rightarrow> Done (Inl e, dest_buf)
          | Inr _ \<Rightarrow>
              (case find_symbol (fv_as_span symbols) name of
                 None \<Rightarrow> Done (Inl NotFound, dest_buf)
               | Some matched \<Rightarrow>
                   let prefix_len = unat (si_start_byte matched);
                       suffix_len = unat ((of_nat (length source) :: u64) - ucast (si_end_byte matched));
                       total_len = unat (of_nat prefix_len + of_nat (length replacement)
                                         + of_nat suffix_len :: u64)
                   in if total_len > alen dest_buf then Done (Inl BufferOverflow, dest_buf)
                      else if prefix_len > length source
                            \<or> unat (si_end_byte matched) + suffix_len > length source
                            \<or> prefix_len + length replacement + suffix_len > alen dest_buf then Fault
                      else
                        let b1 = acopy dest_buf 0 (take prefix_len source);
                            b2 = acopy b1 prefix_len replacement;
                            b3 = acopy b2 (prefix_len + length replacement)
                                   (substr source (unat (si_end_byte matched)) suffix_len)
                        in Done (Inr (total_len,
                                  \<lparr>p_old_start_line = si_start_line matched,
                                   p_old_end_line = si_end_line matched,
                                   p_new_end_line =
                                     si_start_line matched + of_nat (newlines replacement)\<rparr>),
                                 b3)))"

section \<open>What is collected\<close>

text \<open>
  The nodes of a tree: those the interface reaches from its root. A good tree has each node inside
  the source, and gives no null node as a child.
\<close>

inductive reach :: "'n ts_api \<Rightarrow> 'n \<Rightarrow> 'n \<Rightarrow> bool" for ts root where
  reach_root: "reach ts root root"
| reach_child: "reach ts root n \<Longrightarrow> c \<in> set (ts_children ts n) \<Longrightarrow> reach ts root c"
| reach_named: "reach ts root n \<Longrightarrow> c \<in> set (ts_named ts n) \<Longrightarrow> reach ts root c"
| reach_field: "reach ts root n \<Longrightarrow> reach ts root (ts_field ts n f)"

inductive_cases reach_cases: "reach ts root n"

definition of_node :: "'n ts_api \<Rightarrow> 'n \<Rightarrow> symbol_info \<Rightarrow> bool" where
  "of_node ts n s \<longleftrightarrow>
     si_start_byte s = x_start_byte (ts_extent ts n) \<and> si_end_byte s = x_end_byte (ts_extent ts n) \<and>
     si_start_line s = x_start_row (ts_extent ts n) + 1 \<and>
     si_end_line s = x_end_row (ts_extent ts n) + 1"

text \<open>
  What a step of the collection may do to the table: append well-formed, named symbols of nodes of
  the tree.
\<close>

definition tree_symbol :: "'n ts_api \<Rightarrow> 'n \<Rightarrow> symbol_info \<Rightarrow> bool" where
  "tree_symbol ts root s \<longleftrightarrow> sym_ok s \<and> symbol_name s \<noteq> [] \<and>
     (\<exists>n. reach ts root n \<and> \<not> ts_is_null ts n \<and> of_node ts n s)"

definition grows :: "'n ts_api \<Rightarrow> 'n \<Rightarrow> symbols \<Rightarrow> symbols \<Rightarrow> bool" where
  "grows ts root out out' \<longleftrightarrow>
     fv_wf out' \<and> fv_capacity out' = fv_capacity out \<and>
     (\<exists>new. fv_as_span out' = fv_as_span out @ new \<and>
        (\<forall>s \<in> set new. tree_symbol ts root s))"

lemma grows_refl: "fv_wf out \<Longrightarrow> grows ts root out out"
  by (simp add: grows_def)

lemma grows_trans: "grows ts root a b \<Longrightarrow> grows ts root b c \<Longrightarrow> grows ts root a c"
  unfolding grows_def by auto

lemma grows_wf: "grows ts root a b \<Longrightarrow> fv_wf b"
  by (simp add: grows_def)

lemma stored_name_nonempty: "name \<noteq> [] \<Longrightarrow> stored_name k scope name \<noteq> []"
  by (auto simp: stored_name_def Let_def)

lemma grows_record:
  assumes "fv_wf out" "reach ts root n" "\<not> ts_is_null ts n"
  shows "grows ts root out (record_node ts k name n out scope)"
proof (cases "name = [] \<or> fv_full out")
  case True
  with assms(1) show ?thesis by (auto simp: record_node_def record_symbol_def grows_refl)
next
  case False
  from False obtain s where s:
    "fv_as_span (record_node ts k name n out scope) = fv_as_span out @ [s]"
    "symbol_name s = stored_name k scope name" "sym_ok s" "of_node ts n s"
    using record_symbol_spec [of name out k "ts_extent ts n" scope] assms(1)
    by (auto simp: record_node_def of_node_def)
  moreover have "fv_wf (record_node ts k name n out scope)
      \<and> fv_capacity (record_node ts k name n out scope) = fv_capacity out"
    using False assms(1)
    by (simp add: record_node_def record_symbol_def Let_def fv.wf_push fv.room_push
        split: prod.splits)
  ultimately show ?thesis
    using assms False stored_name_nonempty [of name k scope] by (auto simp: grows_def tree_symbol_def)
qed

lemma grows_each:
  assumes "each_node g ns out = Done out'" and "fv_wf out"
    and "\<And>n o1 o2. n \<in> set ns \<Longrightarrow> fv_wf o1 \<Longrightarrow> g n o1 = Done o2 \<Longrightarrow> grows ts root o1 o2"
  shows "grows ts root out out'"
  using assms
proof (induction ns arbitrary: out)
  case Nil
  then show ?case by (simp add: grows_refl)
next
  case (Cons n ns)
  then obtain o1 where o: "g n out = Done o1" "each_node g ns o1 = Done out'"
    by (auto simp: run_bind_Done)
  have g: "grows ts root out o1"
    by (rule Cons.prems(3) [OF _ Cons.prems(2) o(1)]) simp
  moreover have "grows ts root o1 out'"
  proof (rule Cons.IH [OF o(2) grows_wf [OF g]])
    fix n' a b assume "n' \<in> set ns" "fv_wf a" "g n' a = Done b"
    then show "grows ts root a b" by (intro Cons.prems(3)) simp_all
  qed
  ultimately show ?case by (rule grows_trans)
qed

text \<open>A recursive call that only grows the table, on nodes of the tree.\<close>

definition rec_grows :: "'n ts_api \<Rightarrow> 'n \<Rightarrow> ('n \<Rightarrow> symbols \<Rightarrow> string \<Rightarrow> symbols run) \<Rightarrow> bool" where
  "rec_grows ts root rec \<longleftrightarrow> (\<forall>n o1 scope o2.
     reach ts root n \<longrightarrow> fv_wf o1 \<longrightarrow> rec n o1 scope = Done o2 \<longrightarrow> grows ts root o1 o2)"

lemma rec_growsD:
  "rec_grows ts root rec \<Longrightarrow> reach ts root n \<Longrightarrow> fv_wf o1 \<Longrightarrow> rec n o1 scope = Done o2 \<Longrightarrow>
   grows ts root o1 o2"
  by (simp add: rec_grows_def)

lemma grows_body:
  assumes "collect_body ts rec n out scope = Done out'" "rec_grows ts root rec"
    "reach ts root n" "fv_wf out"
  shows "grows ts root out out'"
proof (cases "ts_is_null ts (ts_field ts n ''body'')")
  case True
  with assms show ?thesis by (simp add: collect_body_def grows_refl)
next
  case False
  with assms(1) have "each_node (\<lambda>n o'. rec n o' scope) (ts_named ts (ts_field ts n ''body'')) out
      = Done out'"
    by (simp add: collect_body_def)
  then show ?thesis
    using assms(4)
    by (rule grows_each) (meson assms(2,3) rec_growsD reach_named reach_field)
qed

lemma grows_record_body:
  assumes "collect_body ts rec n (record_node ts k name n out sc) scope = Done out'"
    "rec_grows ts root rec" "reach ts root n" "\<not> ts_is_null ts n" "fv_wf out"
  shows "grows ts root out out'"
proof -
  have g: "grows ts root out (record_node ts k name n out sc)"
    by (rule grows_record [OF assms(5,3,4)])
  from grows_body [OF assms(1-3) grows_wf [OF g]] show ?thesis by (rule grows_trans [OF g])
qed

lemma grows_visit_if:
  assumes "visit_if ts rec types scope c o1 = Done o2" "rec_grows ts root rec"
    "reach ts root c" "fv_wf o1"
  shows "grows ts root o1 o2"
  using assms
  by (auto simp: visit_if_def node_type_def intro: rec_growsD grows_refl split: if_splits)

lemma grows_go_type_spec:
  assumes "go_type_spec ts src scope spec o1 = Done o2" "reach ts root spec" "fv_wf o1"
  shows "grows ts root o1 o2"
  using assms
  by (auto simp: go_type_spec_def node_type_def run_bind_Done
      intro: grows_record grows_refl split: if_splits)

lemma grows_c_function:
  assumes "c_function ts fuel src n out scope = Done out'" "reach ts root n"
    "\<not> ts_is_null ts n" "fv_wf out"
  shows "grows ts root out out'"
  using assms by (auto simp: c_function_def run_bind_Done intro: grows_record)

lemma grows_lang:
  assumes "collect_lang ts fuel rec src l n out scope = Some (Done out')"
    and "rec_grows ts root rec" "reach ts root n" "\<not> ts_is_null ts n" "fv_wf out"
  shows "grows ts root out out'"
proof -
  note rec = grows_record [OF assms(5,3,4)]
  note body = grows_record_body [OF _ assms(2-5)] grows_body [OF _ assms(2,3,5)]
  have visit: "grows ts root out out'"
    if "each_node (visit_if ts rec types scope) (ts_named ts n) out = Done out'" for types
    using that assms(5)
    by (rule grows_each) (meson grows_visit_if assms(2,3) reach_named)
  have spec: "grows ts root out out'"
    if "each_node (go_type_spec ts src scope) (ts_named ts n) out = Done out'"
    using that assms(5)
    by (rule grows_each) (meson grows_go_type_spec assms(3) reach_named)
  have func: "grows ts root out out'" if "c_function ts fuel src n out scope = Done out'"
    using that assms(3-5) by (rule grows_c_function)
  have decl: "grows ts root out out'"
    if "rec (ts_field ts n f) out scope = Done out'" for f
    using rec_growsD [OF assms(2) _ assms(5) that] assms(3) by (blast intro: reach_field)
  show ?thesis
    using assms(1)
    by (cases l)
      (auto simp: collect_lang_def collect_rust_def collect_go_def collect_c_def
        collect_python_def collect_ts_def Let_def run_bind_Done
        intro: rec body visit spec func decl split: if_splits)
qed

lemma grows_collect:
  "rec_grows ts root (collect_symbols_recursive ts src l fuel)"
proof (induction fuel)
  case 0
  show ?case by (simp add: rec_grows_def)
next
  case (Suc fuel)
  show ?case
    unfolding rec_grows_def
  proof (intro allI impI)
    fix n o1 scope o2
    assume a: "reach ts root n" "fv_wf o1"
      "collect_symbols_recursive ts src l (Suc fuel) n o1 scope = Done o2"
    let ?rec = "collect_symbols_recursive ts src l fuel"
    show "grows ts root o1 o2"
    proof (cases "ts_is_null ts n \<or> fv_full o1")
      case True
      with a show ?thesis by (auto simp: grows_refl)
    next
      case f: False
      show ?thesis
      proof (cases "collect_lang ts fuel ?rec src l n o1 scope")
        case (Some r)
        with f a have "collect_lang ts fuel ?rec src l n o1 scope = Some (Done o2)" by simp
        then show ?thesis using Suc.IH a f by (auto intro: grows_lang)
      next
        case None
        with f a have e: "each_node (\<lambda>n o'. ?rec n o' scope) (ts_named ts n) o1 = Done o2" by simp
        show ?thesis
          using e a(2) by (rule grows_each) (meson Suc.IH a(1) rec_growsD reach_named)
      qed
    qed
  qed
qed

section \<open>Termination and defined behaviour\<close>

text \<open>
  A finite tree: \<open>h\<close> bounds the depth below a node, and the nodes that the interface enumerates as
  children are not null.
\<close>

definition tree_bound :: "'n ts_api \<Rightarrow> ('n \<Rightarrow> nat) \<Rightarrow> bool" where
  "tree_bound ts h \<longleftrightarrow>
     (\<forall>n. \<not> ts_is_null ts n \<longrightarrow>
        (\<forall>c \<in> set (ts_children ts n) \<union> set (ts_named ts n). \<not> ts_is_null ts c \<and> h c < h n) \<and>
        (\<forall>f. \<not> ts_is_null ts (ts_field ts n f) \<longrightarrow> h (ts_field ts n f) < h n))"

text \<open>
  The syntax that the code takes for granted: a C or C++ function definition whose declarator has an
  identifier somewhere, and a Go type specification with a type.
\<close>

definition no_gap :: "'n ts_api \<Rightarrow> lang \<Rightarrow> bool" where
  "no_gap ts l \<longleftrightarrow>
     (l = LC \<or> l = LCpp \<longrightarrow> (\<forall>n fuel d. ts_type ts n = ''function_definition'' \<longrightarrow>
        find_descendant ts
          [''identifier'', ''field_identifier'', ''qualified_identifier'', ''destructor_name'']
          fuel (ts_field ts n ''declarator'') = Done d \<longrightarrow> \<not> ts_is_null ts d)) \<and>
     (l = LGo \<longrightarrow> (\<forall>n. ts_type ts n = ''type_spec'' \<longrightarrow> \<not> ts_is_null ts (ts_field ts n ''type'')))"

lemma tree_boundD:
  assumes "tree_bound ts h" "\<not> ts_is_null ts n"
  shows "c \<in> set (ts_children ts n) \<Longrightarrow> \<not> ts_is_null ts c \<and> h c < h n"
    and "c \<in> set (ts_named ts n) \<Longrightarrow> \<not> ts_is_null ts c \<and> h c < h n"
    and "\<not> ts_is_null ts (ts_field ts n f) \<Longrightarrow> h (ts_field ts n f) < h n"
  using assms by (auto simp: tree_bound_def)

lemma first_found_done:
  "(\<And>c. c \<in> set cs \<Longrightarrow> \<exists>d. g c = Done d) \<Longrightarrow> \<exists>d. first_found ts g cs = Done d"
  by (induction cs) fastforce+

lemma find_descendant_done:
  assumes "tree_bound ts h"
  shows "(if ts_is_null ts n then 0 else h n) < fuel \<Longrightarrow> \<exists>d. find_descendant ts types fuel n = Done d"
proof (induction fuel arbitrary: n)
  case 0
  then show ?case by simp
next
  case (Suc fuel)
  have "\<exists>d. first_found ts (find_descendant ts types fuel) (ts_children ts n) = Done d"
    if "\<not> ts_is_null ts n"
  proof (rule first_found_done)
    fix c assume "c \<in> set (ts_children ts n)"
    then have "\<not> ts_is_null ts c \<and> h c < h n" by (rule tree_boundD(1) [OF assms that])
    then show "\<exists>d. find_descendant ts types fuel c = Done d"
      using Suc.prems that by (intro Suc.IH) simp
  qed
  then show ?case by auto
qed

lemma each_node_done:
  "(\<And>n o1. n \<in> set ns \<Longrightarrow> \<exists>o2. g n o1 = Done o2) \<Longrightarrow> \<exists>o2. each_node g ns out = Done o2"
proof (induction ns arbitrary: out)
  case Nil
  then show ?case by simp
next
  case (Cons n ns)
  obtain o2 where "g n out = Done o2" using Cons.prems [of n out] by auto
  moreover have "\<exists>o3. each_node g ns o2 = Done o3" by (rule Cons.IH) (simp add: Cons.prems)
  ultimately show ?case by simp
qed

definition rec_done :: "'n ts_api \<Rightarrow> ('n \<Rightarrow> nat) \<Rightarrow> nat \<Rightarrow> ('n \<Rightarrow> symbols \<Rightarrow> string \<Rightarrow> symbols run) \<Rightarrow> bool" where
  "rec_done ts h fuel rec \<longleftrightarrow>
     (\<forall>n o1 scope. \<not> ts_is_null ts n \<longrightarrow> h n + 1 < fuel \<longrightarrow> (\<exists>o2. rec n o1 scope = Done o2))"

lemma body_done:
  assumes "rec_done ts h fuel rec" "tree_bound ts h" "\<not> ts_is_null ts n" "h n < fuel"
  shows "\<exists>o2. collect_body ts rec n out scope = Done o2"
proof (cases "ts_is_null ts (ts_field ts n ''body'')")
  case True
  then show ?thesis by (simp add: collect_body_def)
next
  case False
  have "\<exists>o2. each_node (\<lambda>m o'. rec m o' scope) (ts_named ts (ts_field ts n ''body'')) out = Done o2"
  proof (rule each_node_done)
    fix m o1 assume "m \<in> set (ts_named ts (ts_field ts n ''body''))"
    then have "\<not> ts_is_null ts m \<and> h m < h (ts_field ts n ''body'')"
      by (rule tree_boundD(2) [OF assms(2) False])
    with tree_boundD(3) [OF assms(2,3) False] assms(1,4)
    show "\<exists>o2. rec m o1 scope = Done o2" by (simp add: rec_done_def)
  qed
  with False show ?thesis by (simp add: collect_body_def)
qed

lemma visit_done:
  assumes "rec_done ts h fuel rec" "tree_bound ts h" "\<not> ts_is_null ts n" "h n < fuel"
  shows "\<exists>o2. each_node (visit_if ts rec types scope) (ts_named ts n) out = Done o2"
proof (rule each_node_done)
  fix m o1 assume "m \<in> set (ts_named ts n)"
  then have "\<not> ts_is_null ts m \<and> h m < h n" by (rule tree_boundD(2) [OF assms(2,3)])
  with assms(1,4) show "\<exists>o2. visit_if ts rec types scope m o1 = Done o2"
    by (simp add: visit_if_def node_type_def rec_done_def)
qed

lemma spec_done:
  assumes "no_gap ts LGo" "tree_bound ts h" "\<not> ts_is_null ts n"
  shows "\<exists>o2. each_node (go_type_spec ts src scope) (ts_named ts n) out = Done o2"
proof (rule each_node_done)
  fix m o1 assume "m \<in> set (ts_named ts n)"
  then have "\<not> ts_is_null ts m" using tree_boundD(2) [OF assms(2,3)] by blast
  with assms(1) show "\<exists>o2. go_type_spec ts src scope m o1 = Done o2"
    by (simp add: go_type_spec_def node_type_def no_gap_def)
qed

lemma declarator_done:
  assumes "tree_bound ts h" "\<not> ts_is_null ts n" "h n < fuel"
  shows "\<exists>d. find_descendant ts types fuel (ts_field ts n f) = Done d"
proof (rule find_descendant_done [OF assms(1)])
  show "(if ts_is_null ts (ts_field ts n f) then 0 else h (ts_field ts n f)) < fuel"
    using tree_boundD(3) [OF assms(1,2), of f] assms(3) by auto
qed

lemma c_function_done:
  assumes "no_gap ts l" "l = LC \<or> l = LCpp" "ts_type ts n = ''function_definition''"
    "tree_bound ts h" "\<not> ts_is_null ts n" "h n < fuel"
  shows "\<exists>o2. c_function ts fuel src n out scope = Done o2"
proof -
  obtain d where d: "find_descendant ts
      [''identifier'', ''field_identifier'', ''qualified_identifier'', ''destructor_name'']
      fuel (ts_field ts n ''declarator'') = Done d"
    using declarator_done [OF assms(4-6)] by blast
  then have "\<not> ts_is_null ts d" using assms(1-3) by (auto simp: no_gap_def)
  with d show ?thesis by (simp add: c_function_def node_type_def)
qed

lemma lang_done:
  assumes "collect_lang ts fuel rec src l n out scope = Some r"
    and "rec_done ts h fuel rec" "tree_bound ts h" "no_gap ts l" "\<not> ts_is_null ts n" "h n < fuel"
  shows "\<exists>out'. r = Done out'"
proof -
  note body = body_done [OF assms(2,3,5,6)] and visit = visit_done [OF assms(2,3,5,6)]
  note decl = declarator_done [OF assms(3,5,6)]
  have expo: "\<exists>o2. rec (ts_field ts n f) out scope = Done o2"
    if "\<not> ts_is_null ts (ts_field ts n f)" for f
    using tree_boundD(3) [OF assms(3,5) that] that assms(2,6) by (simp add: rec_done_def)
  have tdef: "\<exists>o2. run_bind (find_descendant ts types fuel (ts_field ts n f)) (\<lambda>d. Done (k d)) = Done o2"
    for types f and k :: "_ \<Rightarrow> symbols"
    using decl [of types f] by (auto simp: run_bind_Done)
  note cf = c_function_done [OF assms(4) _ _ assms(3,5,6)]
  show ?thesis
  proof (cases l)
    case LGo
    with spec_done [OF _ assms(3,5)] assms(1,4) show ?thesis
      by (auto simp: collect_lang_def collect_go_def Let_def split: if_splits)
  next
    case LC
    with assms(1) show ?thesis
      by (auto simp: collect_lang_def collect_c_def Let_def body visit tdef cf split: if_splits)
  next
    case LCpp
    with assms(1) show ?thesis
      by (auto simp: collect_lang_def collect_c_def Let_def body visit tdef cf split: if_splits)
  qed (use assms(1) in \<open>auto simp: collect_lang_def collect_rust_def collect_python_def collect_ts_def
      Let_def body expo split: if_splits\<close>)
qed

lemma collect_done:
  assumes "tree_bound ts h" "no_gap ts l"
  shows "rec_done ts h fuel (collect_symbols_recursive ts src l fuel)"
proof (induction fuel)
  case 0
  show ?case by (simp add: rec_done_def)
next
  case (Suc fuel)
  show ?case
    unfolding rec_done_def
  proof (intro allI impI)
    fix n o1 scope assume n: "\<not> ts_is_null ts n" "h n + 1 < Suc fuel"
    let ?rec = "collect_symbols_recursive ts src l fuel"
    have lang: "\<exists>o2. r = Done o2" if "collect_lang ts fuel ?rec src l n o1 scope = Some r" for r
      using n by (intro lang_done [OF that Suc.IH assms]) simp_all
    have "\<exists>o2. each_node (\<lambda>m o'. ?rec m o' scope) (ts_named ts n) o1 = Done o2"
    proof (rule each_node_done)
      fix m o2 assume "m \<in> set (ts_named ts n)"
      then have "\<not> ts_is_null ts m \<and> h m < h n" by (rule tree_boundD(2) [OF assms(1) n(1)])
      with n(2) Suc.IH show "\<exists>o3. ?rec m o2 scope = Done o3" by (simp add: rec_done_def)
    qed
    with lang show "\<exists>o2. collect_symbols_recursive ts src l (Suc fuel) n o1 scope = Done o2"
      by (auto split: option.splits)
  qed
qed

section \<open>Properties of the engine\<close>

lemma new_symbols_simps [simp]:
  "fv_wf new_symbols" "fv_capacity new_symbols = MAX_SYMBOLS" "fv_as_span new_symbols = []"
  by (simp_all add: new_symbols_def)

text \<open>A small tree of a C file: one function with its declarator and identifier.\<close>

definition leaf_extent :: "nat \<Rightarrow> nat \<Rightarrow> extent" where
  "leaf_extent a b = \<lparr>x_start_byte = of_nat a, x_end_byte = of_nat b, x_start_row = 0, x_end_row = 0\<rparr>"

definition tiny_ts :: "string \<Rightarrow> string \<Rightarrow> nat ts_api" where
  "tiny_ts outer inner =
     \<lparr>ts_set_language = (\<lambda>_. True), ts_parse = (\<lambda>_ _. Some 3), ts_null = 0,
      ts_is_null = (\<lambda>n. n = 0),
      ts_type = (\<lambda>n. if n = 3 then ''translation_unit'' else if n = 2 then outer else inner),
      ts_children = (\<lambda>n. if n = 3 then [2] else if n = 2 then [1] else []),
      ts_named = (\<lambda>n. if n = 3 then [2] else if n = 2 then [1] else []),
      ts_field = (\<lambda>n f. if n = 2 \<and> f \<in> set [''declarator'', ''name''] then 1 else 0),
      ts_extent = (\<lambda>n. if n = 1 then leaf_extent 4 5 else leaf_extent 0 10)\<rparr>"

definition tiny_src :: string where
  "tiny_src = ''def f(): 0''"

lemma tiny_bound: "tree_bound (tiny_ts a b) (\<lambda>n. n)"
  by (auto simp: tree_bound_def tiny_ts_def)

lemma tiny_no_gap: "no_gap (tiny_ts a b) LPython"
  by (simp add: no_gap_def)

text \<open>
  C10. Extraction always returns, with the fuel of any bound on the tree's depth, and only in
  defined behaviour when the tree has no gaps: the error is InvalidArgument for an unknown language
  and AstError when there is no parser or the library fails; otherwise the table has at most its
  capacity, and each symbol is named, fits its record and has the extent of a node of the tree.
\<close>

theorem extract_symbols_total:
  assumes "tree_bound ts h" and "no_gap ts l"
    and "\<forall>g root. get_language l = Some g \<longrightarrow>
           ts_parse ts g (take (unat (of_nat (length source) :: u32)) source) = Some root \<longrightarrow>
           \<not> ts_is_null ts root \<and> h root + 1 < fuel"
  shows "\<exists>r out'. extract_symbols ts fuel parser source l out = Done (r, out') \<and>
    (case r of
       Inl e \<Rightarrow> out' = out \<and> e = (if parser \<and> l = LUnknown then InvalidArgument else AstError)
     | Inr n \<Rightarrow> n = fv_size out' \<and> n \<le> fv_capacity out \<and>
         (\<exists>g root. get_language l = Some g \<and>
            ts_parse ts g (take (unat (of_nat (length source) :: u32)) source) = Some root \<and>
            (\<forall>s \<in> set (fv_as_span out'). tree_symbol ts root s)))"
proof (cases "parser \<and> get_language l \<noteq> None \<and> ts_set_language ts (the (get_language l)) \<and>
    ts_parse ts (the (get_language l)) (take (unat (of_nat (length source) :: u32)) source) \<noteq> None")
  case False
  then show ?thesis
    by (cases l) (auto simp: extract_symbols_def get_language_def)
next
  case True
  then obtain g root where g: "get_language l = Some g" "parser" "ts_set_language ts g"
    "ts_parse ts g (take (unat (of_nat (length source) :: u32)) source) = Some root"
    by auto
  with assms(3) have r: "\<not> ts_is_null ts root" "h root + 1 < fuel" by auto
  obtain out' where c: "collect_symbols_recursive ts source l fuel root (fv_clear out) [] = Done out'"
    using collect_done [OF assms(1,2), of fuel source] r unfolding rec_done_def by blast
  have "grows ts root (fv_clear out) out'"
    by (rule rec_growsD [OF grows_collect reach_root _ c]) simp
  then have "fv_size out' \<le> fv_capacity out \<and> (\<forall>s \<in> set (fv_as_span out'). tree_symbol ts root s)"
    by (auto simp: grows_def fv_wf_def)
  with g c show ?thesis by (simp add: extract_symbols_def)
qed

theorem extract_symbols_total_witness:
  "\<exists>r out'. extract_symbols (tiny_ts ''function_definition'' ''identifier'') 5 True tiny_src LPython
     new_symbols = Done (r, out') \<and>
    (case r of
       Inl e \<Rightarrow> out' = new_symbols \<and> e = (if True \<and> LPython = LUnknown then InvalidArgument else AstError)
     | Inr n \<Rightarrow> n = fv_size out' \<and> n \<le> fv_capacity new_symbols \<and>
         (\<exists>g root. get_language LPython = Some g \<and>
            ts_parse (tiny_ts ''function_definition'' ''identifier'') g
              (take (unat (of_nat (length tiny_src) :: u32)) tiny_src) = Some root \<and>
            (\<forall>s \<in> set (fv_as_span out').
               tree_symbol (tiny_ts ''function_definition'' ''identifier'') root s)))"
  by (rule extract_symbols_total [OF tiny_bound tiny_no_gap]) (simp add: tiny_ts_def)


text \<open>
  What slicing and patching rely on: a finite tree without gaps, enough fuel, and every node's extent
  inside the source.
\<close>

definition usable :: "'n ts_api \<Rightarrow> nat \<Rightarrow> string \<Rightarrow> lang \<Rightarrow> bool" where
  "usable ts fuel source l \<longleftrightarrow> no_gap ts l \<and> (\<exists>h. tree_bound ts h \<and>
     (\<forall>g root. get_language l = Some g \<longrightarrow>
        ts_parse ts g (take (unat (of_nat (length source) :: u32)) source) = Some root \<longrightarrow>
        \<not> ts_is_null ts root \<and> h root + 1 < fuel \<and>
        (\<forall>n. reach ts root n \<longrightarrow> \<not> ts_is_null ts n \<longrightarrow>
           unat (x_start_byte (ts_extent ts n)) \<le> unat (x_end_byte (ts_extent ts n)) \<and>
           unat (x_end_byte (ts_extent ts n)) \<le> length source)))"

definition in_source :: "string \<Rightarrow> symbol_info \<Rightarrow> bool" where
  "in_source source s \<longleftrightarrow>
     unat (si_start_byte s) \<le> unat (si_end_byte s) \<and> unat (si_end_byte s) \<le> length source"

lemma usable_extract:
  assumes "usable ts fuel source l"
  obtains e where "extract_symbols ts fuel parser source l new_symbols = Done (Inl e, new_symbols)"
    and "e = InvalidArgument \<or> e = AstError"
  | n out where "extract_symbols ts fuel parser source l new_symbols = Done (Inr n, out)"
    and "\<forall>s \<in> set (fv_as_span out). in_source source s"
proof -
  from assms obtain h where h: "no_gap ts l" "tree_bound ts h"
    and r: "\<And>g root. get_language l = Some g \<Longrightarrow>
        ts_parse ts g (take (unat (of_nat (length source) :: u32)) source) = Some root \<Longrightarrow>
        \<not> ts_is_null ts root \<and> h root + 1 < fuel \<and>
        (\<forall>n. reach ts root n \<longrightarrow> \<not> ts_is_null ts n \<longrightarrow>
           unat (x_start_byte (ts_extent ts n)) \<le> unat (x_end_byte (ts_extent ts n)) \<and>
           unat (x_end_byte (ts_extent ts n)) \<le> length source)"
    unfolding usable_def by blast
  show thesis
  proof (cases "parser \<and> get_language l \<noteq> None \<and> ts_set_language ts (the (get_language l)) \<and>
      ts_parse ts (the (get_language l)) (take (unat (of_nat (length source) :: u32)) source) \<noteq> None")
    case False
    then have "extract_symbols ts fuel parser source l new_symbols
        = Done (Inl (if parser \<and> get_language l = None then InvalidArgument else AstError), new_symbols)"
      by (cases "get_language l") (auto simp: extract_symbols_def)
    then show thesis using that(1) by auto
  next
    case True
    then obtain g root where g: "get_language l = Some g" "parser" "ts_set_language ts g"
      "ts_parse ts g (take (unat (of_nat (length source) :: u32)) source) = Some root"
      by auto
    note root = r [OF g(1,4)]
    then obtain out where c:
      "collect_symbols_recursive ts source l fuel root (fv_clear new_symbols) [] = Done out"
      using collect_done [OF h(2,1), of fuel source] unfolding rec_done_def by blast
    have "grows ts root (fv_clear new_symbols) out"
      by (rule rec_growsD [OF grows_collect reach_root _ c]) simp
    then have "\<forall>s \<in> set (fv_as_span out). tree_symbol ts root s" by (auto simp: grows_def)
    with root have "\<forall>s \<in> set (fv_as_span out). in_source source s"
      unfolding tree_symbol_def of_node_def in_source_def by metis
    with g c that(2) show thesis by (simp add: extract_symbols_def)
  qed
qed

lemma find_symbol_mem: "find_symbol syms q = Some s \<Longrightarrow> s \<in> set syms"
  by (auto simp: find_symbol_def dest: find_SomeD split: option.splits)

definition symbol_text :: "string \<Rightarrow> symbol_info \<Rightarrow> string" where
  "symbol_text source s =
     substr source (unat (si_start_byte s)) (unat (si_end_byte s) - unat (si_start_byte s))"

definition spliced :: "string \<Rightarrow> symbol_info \<Rightarrow> string \<Rightarrow> string" where
  "spliced source s replacement =
     take (unat (si_start_byte s)) source @ replacement @ drop (unat (si_end_byte s)) source"

lemma spliced_own: "in_source source s \<Longrightarrow> spliced source s (symbol_text source s) = source"
  unfolding spliced_def symbol_text_def substr_def in_source_def
  by (metis append_take_drop_id drop_drop le_add_diff_inverse2)

lemma slice_found:
  assumes "extract_symbols ts fuel parser source l new_symbols = Done (Inr n, out)"
    and "find_symbol (fv_as_span out) name = Some s" and "in_source source s"
  shows "slice_symbol ts fuel parser source l name =
    Done (Inr \<lparr>sl_start_line = si_start_line s, sl_end_line = si_end_line s,
               sl_content = symbol_text source s\<rparr>)"
proof -
  have "unat (si_end_byte s - si_start_byte s) = unat (si_end_byte s) - unat (si_start_byte s)"
    using assms(3) by (simp add: unat_sub in_source_def word_le_nat_alt)
  with assms show ?thesis
    by (simp add: slice_symbol_def symbol_text_def in_source_def)
qed

text \<open>
  C12. slice_symbol gives the source text of the symbol that the name search finds in the extracted
  table, with its lines; it fails only with the extraction's error or NotFound, and never leaves
  defined behaviour.
\<close>

theorem slice_symbol_text:
  assumes "usable ts fuel source l"
  shows "\<exists>r. slice_symbol ts fuel parser source l name = Done r \<and>
    (case r of
       Inl e \<Rightarrow> e \<in> {InvalidArgument, AstError, NotFound}
     | Inr sl \<Rightarrow> \<exists>n out s. extract_symbols ts fuel parser source l new_symbols = Done (Inr n, out) \<and>
         find_symbol (fv_as_span out) name = Some s \<and>
         sl = \<lparr>sl_start_line = si_start_line s, sl_end_line = si_end_line s,
               sl_content = symbol_text source s\<rparr> \<and>
         spliced source s (sl_content sl) = source)"
proof (rule usable_extract [OF assms, of parser])
  fix e assume "extract_symbols ts fuel parser source l new_symbols = Done (Inl e, new_symbols)"
    "e = InvalidArgument \<or> e = AstError"
  then show ?thesis by (auto simp: slice_symbol_def)
next
  fix n out assume x: "extract_symbols ts fuel parser source l new_symbols = Done (Inr n, out)"
    and i: "\<forall>s \<in> set (fv_as_span out). in_source source s"
  show ?thesis
  proof (cases "find_symbol (fv_as_span out) name")
    case None
    with x show ?thesis by (simp add: slice_symbol_def)
  next
    case (Some s)
    with i have "in_source source s" by (blast dest: find_symbol_mem)
    with x Some show ?thesis by (simp add: slice_found spliced_own)
  qed
qed

lemma patch_found:
  assumes "extract_symbols ts fuel parser source l new_symbols = Done (Inr n, out)"
    and "find_symbol (fv_as_span out) name = Some s" and "in_source source s"
    and "length source + length replacement < 2 ^ 64"
  shows "patch_symbol ts fuel parser source l name replacement dest =
    (if length (spliced source s replacement) > alen dest then Done (Inl BufferOverflow, dest)
     else Done (Inr (length (spliced source s replacement),
                  \<lparr>p_old_start_line = si_start_line s, p_old_end_line = si_end_line s,
                   p_new_end_line = si_start_line s + of_nat (newlines replacement)\<rparr>),
                acopy dest 0 (spliced source s replacement)))"
proof -
  let ?a = "unat (si_start_byte s)" and ?b = "unat (si_end_byte s)"
  have i: "?a \<le> ?b" "?b \<le> length source" using assms(3) by (simp_all add: in_source_def)
  have "(of_nat (length source) :: u64) - ucast (si_end_byte s) = of_nat (length source - ?b)"
    using i by (simp add: of_nat_diff)
  then have suf: "unat ((of_nat (length source) :: u64) - ucast (si_end_byte s)) = length source - ?b"
    using assms(4) by (simp add: unat_of_nat)
  have "(of_nat ?a + of_nat (length replacement) + of_nat (length source - ?b) :: u64)
      = of_nat (?a + length replacement + (length source - ?b))" by simp
  then have tot: "unat (of_nat ?a + of_nat (length replacement) + of_nat (length source - ?b) :: u64)
      = ?a + length replacement + (length source - ?b)"
    using assms(4) i by (simp only: unat_of_nat) (rule mod_less, simp)
  then have tot': "unat (ucast (si_start_byte s) + of_nat (length replacement)
      + (of_nat (length source) - ucast (si_end_byte s)) :: u64)
      = ?a + length replacement + (length source - ?b)"
    using i by (simp add: of_nat_diff)
  have len: "length (spliced source s replacement) = ?a + length replacement + (length source - ?b)"
    using i by (simp add: spliced_def)
  have cp: "acopy (acopy (acopy dest 0 (take ?a source)) ?a replacement) (?a + length replacement)
      (substr source ?b (length source - ?b)) = acopy dest 0 (spliced source s replacement)"
    using acopy_acopy [of dest 0 "take ?a source" replacement]
      acopy_acopy [of dest 0 "take ?a source @ replacement" "drop ?b source"] i
    by (simp add: spliced_def substr_def)
  show ?thesis
    using assms(1,2) i
    by (simp add: patch_symbol_def suf tot' Let_def cp len)
qed

text \<open>
  C6. patch_symbol replaces the symbol and nothing else: on success the destination starts with the
  source up to the symbol, the replacement and the source from the symbol's end on, the returned
  length is theirs, and the new end line counts the replacement's newlines. It fails exactly when
  extraction or lookup does, or with BufferOverflow when that text is longer than the destination,
  and then leaves the destination untouched.
\<close>

theorem patch_symbol_splices:
  assumes "usable ts fuel source l" and "length source + length replacement < 2 ^ 64"
  shows "\<exists>r dest'. patch_symbol ts fuel parser source l name replacement dest = Done (r, dest') \<and>
    (case r of
       Inl e \<Rightarrow> dest' = dest \<and> e \<in> {InvalidArgument, AstError, NotFound, BufferOverflow}
     | Inr (len, pr) \<Rightarrow>
         (\<exists>n out s. extract_symbols ts fuel parser source l new_symbols = Done (Inr n, out) \<and>
            find_symbol (fv_as_span out) name = Some s \<and>
            len = length (spliced source s replacement) \<and> len \<le> alen dest \<and>
            apre dest' len = spliced source s replacement \<and>
            pr = \<lparr>p_old_start_line = si_start_line s, p_old_end_line = si_end_line s,
                  p_new_end_line = si_start_line s + of_nat (newlines replacement)\<rparr>))"
proof (rule usable_extract [OF assms(1), of parser])
  fix e assume "extract_symbols ts fuel parser source l new_symbols = Done (Inl e, new_symbols)"
    "e = InvalidArgument \<or> e = AstError"
  then show ?thesis by (auto simp: patch_symbol_def)
next
  fix n out assume x: "extract_symbols ts fuel parser source l new_symbols = Done (Inr n, out)"
    and i: "\<forall>s \<in> set (fv_as_span out). in_source source s"
  show ?thesis
  proof (cases "find_symbol (fv_as_span out) name")
    case None
    with x show ?thesis by (simp add: patch_symbol_def)
  next
    case (Some s)
    with i have "in_source source s" by (blast dest: find_symbol_mem)
    from patch_found [OF x Some this assms(2), of dest] x Some show ?thesis
      by (simp add: apre_acopy_0)
  qed
qed

text \<open>
  C26. Patching a symbol with its own slice gives the source back: what slice_symbol reads is exactly
  what patch_symbol replaces.
\<close>

theorem patch_own_slice:
  assumes "usable ts fuel source l" and "length source < 2 ^ 63" and "length source \<le> alen dest"
    and "slice_symbol ts fuel parser source l name = Done (Inr sl)"
  shows "\<exists>pr dest'. patch_symbol ts fuel parser source l name (sl_content sl) dest
      = Done (Inr (length source, pr), dest') \<and> apre dest' (length source) = source"
proof (rule usable_extract [OF assms(1), of parser])
  fix e assume "extract_symbols ts fuel parser source l new_symbols = Done (Inl e, new_symbols)"
  with assms(4) show ?thesis by (simp add: slice_symbol_def)
next
  fix n out assume x: "extract_symbols ts fuel parser source l new_symbols = Done (Inr n, out)"
    and i: "\<forall>s \<in> set (fv_as_span out). in_source source s"
  obtain s where f: "find_symbol (fv_as_span out) name = Some s"
    using assms(4) x by (cases "find_symbol (fv_as_span out) name") (simp_all add: slice_symbol_def)
  with i have s: "in_source source s" by (blast dest: find_symbol_mem)
  from slice_found [OF x f s] assms(4) have c: "sl_content sl = symbol_text source s" by auto
  have "length (symbol_text source s) \<le> length source"
    by (simp add: symbol_text_def substr_def)
  then have "length source + length (symbol_text source s) < 2 ^ 64" using assms(2) by simp
  from patch_found [OF x f s this, of dest] spliced_own [OF s] assms(3) show ?thesis
    by (simp add: c apre_acopy_0)
qed

definition py_ts :: "nat ts_api" where
  "py_ts = tiny_ts ''function_definition'' ''identifier''"

lemma py_usable: "usable py_ts 5 tiny_src LPython"
proof -
  have b: "unat (x_start_byte (ts_extent py_ts n)) \<le> unat (x_end_byte (ts_extent py_ts n)) \<and>
      unat (x_end_byte (ts_extent py_ts n)) \<le> length tiny_src" for n
    by (simp add: py_ts_def tiny_ts_def leaf_extent_def tiny_src_def)
  have "\<not> ts_is_null py_ts root \<and> root + 1 < 5" if "ts_parse py_ts g s = Some root" for g s root
    using that by (auto simp: py_ts_def tiny_ts_def)
  with b show ?thesis
    unfolding usable_def using tiny_no_gap tiny_bound by (metis py_ts_def)
qed

lemma py_slice:
  "slice_symbol py_ts 5 True tiny_src LPython ''f'' =
     Done (Inr \<lparr>sl_start_line = 1, sl_end_line = 1, sl_content = tiny_src\<rparr>)"
  by code_simp

theorem slice_symbol_text_witness:
  "\<exists>n out s. extract_symbols py_ts 5 True tiny_src LPython new_symbols = Done (Inr n, out) \<and>
     find_symbol (fv_as_span out) ''f'' = Some s \<and> symbol_text tiny_src s = tiny_src"
  using slice_symbol_text [OF py_usable, of True "''f''"] py_slice by auto

theorem patch_symbol_splices_witness:
  "\<exists>dest'. patch_symbol py_ts 5 True tiny_src LPython ''f'' ''pass'' (anew 20 CHR ''x'')
     = Done (Inr (4, \<lparr>p_old_start_line = 1, p_old_end_line = 1, p_new_end_line = 1\<rparr>), dest') \<and>
     apre dest' 4 = ''pass''"
proof -
  let ?p = "patch_symbol py_ts 5 True tiny_src LPython ''f'' ''pass'' (anew 20 CHR ''x'')"
  have "case ?p of Done (r, _) \<Rightarrow>
      r = Inr (4, \<lparr>p_old_start_line = 1, p_old_end_line = 1, p_new_end_line = 1\<rparr>) | _ \<Rightarrow> False"
    by code_simp
  then obtain dest' where p: "?p =
      Done (Inr (4, \<lparr>p_old_start_line = 1, p_old_end_line = 1, p_new_end_line = 1\<rparr>), dest')"
    by (auto split: run.splits)
  have "length tiny_src + length ''pass'' < 2 ^ 64" by (simp add: tiny_src_def)
  from patch_symbol_splices [OF py_usable this, of True "''f''" "anew 20 CHR ''x''"] p
  obtain n out s where
    "extract_symbols py_ts 5 True tiny_src LPython new_symbols = Done (Inr n, out)"
    "find_symbol (fv_as_span out) ''f'' = Some s" "apre dest' 4 = spliced tiny_src s ''pass''"
    by auto
  moreover have "case extract_symbols py_ts 5 True tiny_src LPython new_symbols of
      Done (_, out) \<Rightarrow> (case find_symbol (fv_as_span out) ''f'' of
          Some s \<Rightarrow> spliced tiny_src s ''pass'' = ''pass'' | None \<Rightarrow> False) | _ \<Rightarrow> False"
    by code_simp
  ultimately have "apre dest' 4 = ''pass''" by simp
  with p show ?thesis by blast
qed

theorem patch_own_slice_witness:
  "\<exists>pr dest'. patch_symbol py_ts 5 True tiny_src LPython ''f'' tiny_src (anew 20 CHR ''x'')
      = Done (Inr (length tiny_src, pr), dest') \<and> apre dest' (length tiny_src) = tiny_src"
proof -
  have "length tiny_src < 2 ^ 63" "length tiny_src \<le> alen (anew 20 CHR ''x'')"
    by (simp_all add: tiny_src_def)
  from patch_own_slice [OF py_usable this py_slice] show ?thesis by simp
qed

end
