(* ===== verification/Server_Handlers.thy ===== *)
theory Server_Handlers
  imports Cdp_Bridge Ast_Engine
begin

text \<open>
  The handlers of ApplianceServer (include/axiom/server.hpp): one function per request, from the
  payload of the frame to the response, over the part of the server that requests work on. The
  scratch arrays of the server are written before they are read in every request, so a handler
  starts from fresh ones. What every handler ends with, encoding two headers and writing them and
  the bodies to the client, is \<open>respond\<close>.
\<close>

section \<open>State\<close>

definition AST_FILE_BUFFER_CAPACITY :: nat where
  "AST_FILE_BUFFER_CAPACITY = 262144"

definition EXEC_DIFF_CAPACITY :: nat where
  "EXEC_DIFF_CAPACITY = 8192"

definition MAX_TREE_TEXT_SIZE :: nat where
  "MAX_TREE_TEXT_SIZE = 65536"

text \<open>The part of the server that a request can change; the log is the world outside.\<close>

record core =
  co_reactor :: int
  co_running :: bool
  co_runner :: runner
  co_bridge :: bridge
  co_log :: log

text \<open>What the server runs on: the system, the file system, the parser library and its fuel.\<close>

record 'n world =
  w_env :: env
  w_dirs :: "log \<Rightarrow> dir_os"
  w_ts :: "'n ts_api"
  w_ts_fuel :: nat
  w_parser :: bool

text \<open>A response: its opcode, the payload length of its header, the encoded payload header, the bodies.\<close>

record response =
  rs_opcode :: opcode
  rs_payload_len :: u32
  rs_header :: "nat result \<times> byte arr"
  rs_bodies :: "byte list list"

section \<open>Sending\<close>

text \<open>A client that cannot be written to is unregistered and closed; the flag says it is still there.\<close>

definition drop_client :: "env \<Rightarrow> int \<Rightarrow> core \<Rightarrow> core" where
  "drop_client env fd c =
     (let l1 = snd (reactor_remove env (co_reactor c) fd (co_log c))
      in c\<lparr>co_log := (if fd \<ge> 0 then sys_close fd l1 else l1)\<rparr>)"

fun send_parts :: "env \<Rightarrow> int \<Rightarrow> byte list list \<Rightarrow> core \<Rightarrow> (bool \<times> core) run" where
  "send_parts env fd [] c = Done (True, c)"
| "send_parts env fd (p # ps) c =
     run_bind (write_all env fd p (co_log c))
       (\<lambda>(ok, log). if ok then send_parts env fd ps (c\<lparr>co_log := log\<rparr>)
                    else Done (False, drop_client env fd (c\<lparr>co_log := log\<rparr>)))"

definition response_header :: "u32 \<Rightarrow> response \<Rightarrow> frame_header" where
  "response_header request_id r =
     \<lparr>fh_magic = WIRE_MAGIC, fh_opcode = opcode_val (rs_opcode r), fh_request_id = request_id,
      fh_payload_len = rs_payload_len r\<rparr>"

definition respond :: "env \<Rightarrow> int \<Rightarrow> u32 \<Rightarrow> response \<Rightarrow> core \<Rightarrow> (bool \<times> core) run" where
  "respond env fd request_id r c =
     (case (encode_header (response_header request_id r) (anew HEADER_SIZE 0), rs_header r) of
        ((Inr _, b1), (Inr _, b2)) \<Rightarrow>
          send_parts env fd ((apre b1 HEADER_SIZE @ apre b2 (alen b2)) # filter (\<lambda>p. p \<noteq> []) (rs_bodies r)) c
      | _ \<Rightarrow> Done (True, c))"

type_synonym handler = "frame_header \<Rightarrow> byte list \<Rightarrow> core \<Rightarrow> (response option \<times> core) run"

section \<open>Exec\<close>

definition exec_request :: "u32 \<Rightarrow> byte list \<Rightarrow> exec_options option" where
  "exec_request payload_len payload =
     (if unat payload_len < EXEC_REQ_HEADER_SIZE then None
      else case decode_exec_request payload of
        Inl _ \<Rightarrow> None
      | Inr req \<Rightarrow>
          let cmd_len = unat (xq_cmd_len req); cwd_len = unat (xq_cwd_len req) in
          if unat payload_len < EXEC_REQ_HEADER_SIZE + cmd_len + cwd_len then None
          else let rest = map to_char (drop EXEC_REQ_HEADER_SIZE payload);
                   cwd = take cwd_len (drop cmd_len rest)
               in Some \<lparr>xo_command = take cmd_len rest,
                        xo_working_dir = (if cwd = [] then ''/tmp'' else cwd),
                        xo_timeout_ms = (if xq_timeout_ms req > 0 then xq_timeout_ms req else 5000),
                        xo_flags = xq_flags req\<rparr>)"

definition exec_response :: "exec_result result \<Rightarrow> exec_response_header" where
  "exec_response res =
     (case res of
        Inr x \<Rightarrow> \<lparr>xr_exit_code = er_exit_code x, xr_flags = er_flags x, xr_cpu_cycles = er_cpu_cycles x,
                  xr_output_len = of_nat (er_output_len x), xr_diff_len = of_nat (er_diff_len x)\<rparr>
      | Inl _ \<Rightarrow> exec_response_header_init\<lparr>xr_exit_code := - 1\<rparr>)"

definition handle_exec :: "'n world \<Rightarrow> handler" where
  "handle_exec w h payload c =
     (case exec_request (fh_payload_len h) payload of
        None \<Rightarrow> Done (None, c)
      | Some opts \<Rightarrow>
          run_bind (process_run (w_env w) (w_dirs w) (co_runner c) opts (anew RING_BUFFER_CAPACITY 0)
                      (anew EXEC_DIFF_CAPACITY CHR 0x00) (co_log c))
            (\<lambda>(res, runner, out, diff, log).
               let r = exec_response res in
               Done (Some \<lparr>rs_opcode = ExecOutput,
                           rs_payload_len = of_nat EXEC_RESP_HEADER_SIZE + xr_output_len r + xr_diff_len r,
                           rs_header = encode_exec_response r (anew EXEC_RESP_HEADER_SIZE 0),
                           rs_bodies = [apre out (unat (xr_output_len r)),
                                        map to_byte (apre diff (unat (xr_diff_len r)))]\<rparr>,
                     c\<lparr>co_runner := runner, co_log := log\<rparr>)))"

section \<open>Files\<close>

primrec read_file_loop :: "env \<Rightarrow> nat \<Rightarrow> int \<Rightarrow> nat \<Rightarrow> byte list \<Rightarrow> log \<Rightarrow> (byte list result \<times> log) run" where
  "read_file_loop env 0 fd room acc log = (if room = 0 then Done (Inr acc, log) else Out_Of_Fuel)"
| "read_file_loop env (Suc fuel) fd room acc log =
     (if room = 0 then Done (Inr acc, log)
      else case sys_read env fd room log of
        (Ok bs, log1) \<Rightarrow>
          if bs = [] then Done (Inr acc, log1)
          else read_file_loop env fuel fd (room - length bs) (acc @ bs) log1
      | (Err e, log1) \<Rightarrow>
          if e = EINTR then read_file_loop env fuel fd room acc log1 else Done (Inl IoError, log1))"

definition path_ok :: "string \<Rightarrow> bool" where
  "path_ok path \<longleftrightarrow> path \<noteq> [] \<and> length path < 4096"

definition read_file :: "env \<Rightarrow> string \<Rightarrow> nat \<Rightarrow> log \<Rightarrow> (byte list result \<times> log) run" where
  "read_file env path room log =
     (if \<not> path_ok path then Done (Inl InvalidArgument, log)
      else case sys_open env (c_str path) Open_Read 0 log of
        (Err e, log1) \<Rightarrow> Done (Inl IoError, log1)
      | (Ok fd, log1) \<Rightarrow>
          run_bind (read_file_loop env (e_fuel env) fd room [] log1)
            (\<lambda>(r, log2). Done (r, sys_close fd log2)))"

definition write_file :: "env \<Rightarrow> string \<Rightarrow> byte list \<Rightarrow> log \<Rightarrow> (unit result \<times> log) run" where
  "write_file env path content log =
     (if \<not> path_ok path then Done (Inl InvalidArgument, log)
      else case sys_open env (c_str path) Open_Create_Trunc 420 log of
        (Err e, log1) \<Rightarrow> Done (Inl IoError, log1)
      | (Ok fd, log1) \<Rightarrow>
          run_bind (write_all env fd content log1)
            (\<lambda>(ok, log2). Done (if ok then Inr () else Inl IoError, sys_close fd log2)))"

section \<open>Symbols, slices and patches\<close>

text \<open>
  What the three AST handlers begin with: the file, its text and its language. The statuses are -1
  when the file cannot be read and -2 when the language is not known.
\<close>

definition load_source :: "env \<Rightarrow> string \<Rightarrow> log \<Rightarrow> ((i32 + string \<times> lang) \<times> log) run" where
  "load_source env path log =
     run_bind (read_file env path AST_FILE_BUFFER_CAPACITY log)
       (\<lambda>(r, log1). case r of
          Inl e \<Rightarrow> Done (Inl (- 1), log1)
        | Inr bytes \<Rightarrow>
            if detect_language path = LUnknown then Done (Inl (- 2), log1)
            else Done (Inr (map to_char bytes, detect_language path), log1))"

definition symbols_request :: "u32 \<Rightarrow> byte list \<Rightarrow> string option" where
  "symbols_request payload_len payload =
     (if unat payload_len < AST_SYMBOLS_REQ_HEADER_SIZE then None
      else case decode_ast_symbols_request payload of
        Inl _ \<Rightarrow> None
      | Inr req \<Rightarrow>
          if unat payload_len < AST_SYMBOLS_REQ_HEADER_SIZE + unat (yq_path_len req) then None
          else Some (take (unat (yq_path_len req)) (map to_char (drop AST_SYMBOLS_REQ_HEADER_SIZE payload))))"

definition symbols_table ::
  "'n world \<Rightarrow> string \<Rightarrow> lang \<Rightarrow> (ast_symbols_response_header \<times> string) run" where
  "symbols_table w source l =
     run_bind (extract_symbols (w_ts w) (w_ts_fuel w) (w_parser w) source l new_symbols)
       (\<lambda>(r, symbols). case r of
          Inl e \<Rightarrow> Done (ast_symbols_response_header_init\<lparr>yr_status := - 3\<rparr>, [])
        | Inr _ \<Rightarrow>
            run_bind (format_symbols symbols (anew AST_FILE_BUFFER_CAPACITY CHR 0x00))
              (\<lambda>f. case f of
                 Inl e \<Rightarrow> Done (ast_symbols_response_header_init\<lparr>yr_status := - 4\<rparr>, [])
               | Inr (buf, n) \<Rightarrow>
                   Done (\<lparr>yr_status = 0, yr_symbol_count = of_nat (fv_size symbols),
                          yr_payload_len = of_nat n\<rparr>, apre buf n)))"

definition handle_ast_symbols :: "'n world \<Rightarrow> handler" where
  "handle_ast_symbols w h payload c =
     (case symbols_request (fh_payload_len h) payload of
        None \<Rightarrow> Done (None, c)
      | Some path \<Rightarrow>
          run_bind (load_source (w_env w) path (co_log c)) (\<lambda>(src, log).
          run_bind (case src of
                      Inl status \<Rightarrow> Done (ast_symbols_response_header_init\<lparr>yr_status := status\<rparr>, [])
                    | Inr (source, l) \<Rightarrow> symbols_table w source l) (\<lambda>(r, table).
            Done (Some \<lparr>rs_opcode = AstSymbolsResponse,
                        rs_payload_len = of_nat (AST_SYMBOLS_RESP_HEADER_SIZE + length table),
                        rs_header = encode_ast_symbols_response r (anew AST_SYMBOLS_RESP_HEADER_SIZE 0),
                        rs_bodies = [map to_byte table]\<rparr>,
                  c\<lparr>co_log := log\<rparr>))))"

definition slice_request :: "u32 \<Rightarrow> byte list \<Rightarrow> (string \<times> string) option" where
  "slice_request payload_len payload =
     (if unat payload_len < AST_SLICE_REQ_HEADER_SIZE then None
      else case decode_ast_slice_request payload of
        Inl _ \<Rightarrow> None
      | Inr req \<Rightarrow>
          let path_len = unat (lq_path_len req); symbol_len = unat (lq_symbol_len req) in
          if unat payload_len < AST_SLICE_REQ_HEADER_SIZE + path_len + symbol_len then None
          else let rest = map to_char (drop AST_SLICE_REQ_HEADER_SIZE payload)
               in Some (take path_len rest, take symbol_len (drop path_len rest)))"

definition slice_response :: "symbol_slice result \<Rightarrow> ast_slice_response_header \<times> string" where
  "slice_response r =
     (case r of
        Inl e \<Rightarrow> (ast_slice_response_header_init\<lparr>lr_status := - 3\<rparr>, [])
      | Inr s \<Rightarrow> (\<lparr>lr_status = 0, lr_start_line = sl_start_line s, lr_end_line = sl_end_line s,
                  lr_content_len = of_nat (length (sl_content s))\<rparr>, sl_content s))"

definition handle_ast_slice :: "'n world \<Rightarrow> handler" where
  "handle_ast_slice w h payload c =
     (case slice_request (fh_payload_len h) payload of
        None \<Rightarrow> Done (None, c)
      | Some (path, sym_name) \<Rightarrow>
          run_bind (load_source (w_env w) path (co_log c)) (\<lambda>(src, log).
          run_bind (case src of
                      Inl status \<Rightarrow> Done (ast_slice_response_header_init\<lparr>lr_status := status\<rparr>, [])
                    | Inr (source, l) \<Rightarrow>
                        run_bind (slice_symbol (w_ts w) (w_ts_fuel w) (w_parser w) source l sym_name)
                          (\<lambda>r. Done (slice_response r))) (\<lambda>(r, content).
            Done (Some \<lparr>rs_opcode = AstSliceResponse,
                        rs_payload_len = of_nat (AST_SLICE_RESP_HEADER_SIZE + unat (lr_content_len r)),
                        rs_header = encode_ast_slice_response r (anew AST_SLICE_RESP_HEADER_SIZE 0),
                        rs_bodies = [map to_byte (take (unat (lr_content_len r)) content)]\<rparr>,
                  c\<lparr>co_log := log\<rparr>))))"

definition patch_request :: "u32 \<Rightarrow> byte list \<Rightarrow> (string \<times> string \<times> string) option" where
  "patch_request payload_len payload =
     (if unat payload_len < AST_PATCH_REQ_HEADER_SIZE then None
      else case decode_ast_patch_request payload of
        Inl _ \<Rightarrow> None
      | Inr req \<Rightarrow>
          let path_len = unat (pq_path_len req); symbol_len = unat (pq_symbol_len req);
              replacement_len = unat (pq_replacement_len req) in
          if unat payload_len < AST_PATCH_REQ_HEADER_SIZE + path_len + symbol_len + replacement_len then None
          else let rest = map to_char (drop AST_PATCH_REQ_HEADER_SIZE payload)
               in Some (take path_len rest, take symbol_len (drop path_len rest),
                        take replacement_len (drop (path_len + symbol_len) rest)))"

text \<open>The patched text is written back to the file; -3 and -4 are the failures of the two steps.\<close>

definition patch_file ::
  "'n world \<Rightarrow> string \<Rightarrow> string \<Rightarrow> string \<Rightarrow> string \<Rightarrow> lang \<Rightarrow> log \<Rightarrow>
   (ast_patch_response_header \<times> log) run" where
  "patch_file w path sym_name replacement source l log =
     run_bind (patch_symbol (w_ts w) (w_ts_fuel w) (w_parser w) source l sym_name replacement
                 (anew AST_FILE_BUFFER_CAPACITY CHR 0x00))
       (\<lambda>(res, buf). case res of
          Inl e \<Rightarrow> Done (ast_patch_response_header_init\<lparr>pr_status := - 3\<rparr>, log)
        | Inr (n, p) \<Rightarrow>
            run_bind (write_file (w_env w) path (map to_byte (apre buf n)) log)
              (\<lambda>(wr, log1). case wr of
                 Inl e \<Rightarrow> Done (ast_patch_response_header_init\<lparr>pr_status := - 4\<rparr>, log1)
               | Inr _ \<Rightarrow> Done (\<lparr>pr_status = 0, pr_old_start_line = p_old_start_line p,
                                pr_old_end_line = p_old_end_line p, pr_new_end_line = p_new_end_line p\<rparr>,
                               log1)))"

definition handle_ast_patch :: "'n world \<Rightarrow> handler" where
  "handle_ast_patch w h payload c =
     (case patch_request (fh_payload_len h) payload of
        None \<Rightarrow> Done (None, c)
      | Some (path, sym_name, replacement) \<Rightarrow>
          run_bind (load_source (w_env w) path (co_log c)) (\<lambda>(src, log).
          run_bind (case src of
                      Inl status \<Rightarrow> Done (ast_patch_response_header_init\<lparr>pr_status := status\<rparr>, log)
                    | Inr (source, l) \<Rightarrow> patch_file w path sym_name replacement source l log) (\<lambda>(r, log1).
            Done (Some \<lparr>rs_opcode = AstPatchResponse,
                        rs_payload_len = of_nat AST_PATCH_RESP_HEADER_SIZE,
                        rs_header = encode_ast_patch_response r (anew AST_PATCH_RESP_HEADER_SIZE 0),
                        rs_bodies = []\<rparr>,
                  c\<lparr>co_log := log1\<rparr>))))"

section \<open>Browser actions\<close>

definition cdp_request :: "u32 \<Rightarrow> byte list \<Rightarrow> (cdp_action_request_header \<times> string) option" where
  "cdp_request payload_len payload =
     (if unat payload_len < CDP_REQ_HEADER_SIZE then None
      else case decode_cdp_request payload of
        Inl _ \<Rightarrow> None
      | Inr req \<Rightarrow>
          let p1_len = unat (cq_payload1_len req); p2_len = unat (cq_payload2_len req) in
          if unat payload_len < CDP_REQ_HEADER_SIZE + p1_len + p2_len then None
          else Some (req, take p1_len (map to_char (drop CDP_REQ_HEADER_SIZE payload))))"

definition cdp_tree :: "env \<Rightarrow> bridge \<Rightarrow> log \<Rightarrow> ((nat \<times> string) result \<times> bridge \<times> log) run" where
  "cdp_tree env b log =
     run_bind (get_axtree env (fv_new MAX_AX_NODES ax_node_init) (anew MAX_TREE_TEXT_SIZE CHR 0x00) b log)
       (\<lambda>(r, nodes, text, b1, log1). case r of
          Inl e \<Rightarrow> Done (Inl e, b1, log1)
        | Inr n \<Rightarrow> Done (Inr (fv_size nodes, apre text n), b1, log1))"

definition tree_response :: "nat \<Rightarrow> string \<Rightarrow> cdp_action_response_header" where
  "tree_response count text =
     \<lparr>cr_status = 0, cr_node_count = of_nat count, cr_payload_len = of_nat (length text)\<rparr>"

definition cdp_failed :: "i32 \<Rightarrow> cdp_action_response_header" where
  "cdp_failed status = cdp_action_response_header_init\<lparr>cr_status := status\<rparr>"

text \<open>An action followed by the tree, which is left out when it cannot be had.\<close>

definition act_and_tree ::
  "env \<Rightarrow> unit bm \<Rightarrow> bridge \<Rightarrow> log \<Rightarrow> ((cdp_action_response_header \<times> string) \<times> bridge \<times> log) run" where
  "act_and_tree env act b log =
     run_bind (act b log) (\<lambda>(r, b1, log1). case r of
        Inl e \<Rightarrow> Done ((cdp_failed (- 1), []), b1, log1)
      | Inr _ \<Rightarrow>
          run_bind (cdp_tree env b1 log1) (\<lambda>(t, b2, log2).
            Done (case t of Inl e \<Rightarrow> (cdp_failed 0, []) | Inr (count, text) \<Rightarrow> (tree_response count text, text),
                  b2, log2)))"

definition act_only ::
  "unit bm \<Rightarrow> bridge \<Rightarrow> log \<Rightarrow> ((cdp_action_response_header \<times> string) \<times> bridge \<times> log) run" where
  "act_only act b log =
     run_bind (act b log) (\<lambda>(r, b1, log1).
       Done ((cdp_failed (case r of Inl e \<Rightarrow> - 1 | Inr _ \<Rightarrow> 0), []), b1, log1))"

definition cdp_action ::
  "env \<Rightarrow> cdp_action_request_header \<Rightarrow> string \<Rightarrow> bridge \<Rightarrow> log \<Rightarrow>
   ((cdp_action_response_header \<times> string) \<times> bridge \<times> log) run" where
  "cdp_action env req p1 b log =
     (case cdp_action_of (cq_action req) of
        Some Navigate \<Rightarrow> act_and_tree env (navigate env p1) b log
      | Some GetTree \<Rightarrow>
          run_bind (cdp_tree env b log) (\<lambda>(t, b1, log1).
            Done (case t of Inl e \<Rightarrow> (cdp_failed (- 1), []) | Inr (count, text) \<Rightarrow> (tree_response count text, text),
                  b1, log1))
      | Some Click \<Rightarrow> act_and_tree env (click env (ucast (cq_target_id req))) b log
      | Some Type \<Rightarrow> act_only (type_text env (ucast (cq_target_id req)) p1) b log
      | Some Scroll \<Rightarrow> act_only (scroll env (cq_scroll_delta req)) b log
      | None \<Rightarrow> Done ((cdp_failed (- 2), []), b, log))"

definition handle_cdp :: "'n world \<Rightarrow> handler" where
  "handle_cdp w h payload c =
     (case cdp_request (fh_payload_len h) payload of
        None \<Rightarrow> Done (None, c)
      | Some (req, p1) \<Rightarrow>
          run_bind (cdp_action (w_env w) req p1 (co_bridge c) (co_log c)) (\<lambda>((r, text), b, log).
            Done (Some \<lparr>rs_opcode = CdpActionResponse,
                        rs_payload_len = of_nat (CDP_RESP_HEADER_SIZE + length text),
                        rs_header = encode_cdp_response r (anew CDP_RESP_HEADER_SIZE 0),
                        rs_bodies = [map to_byte text]\<rparr>,
                  c\<lparr>co_bridge := b, co_log := log\<rparr>)))"

section \<open>Reading and writing files\<close>

definition file_read_request :: "u32 \<Rightarrow> byte list \<Rightarrow> (read_file_request_header \<times> string) option" where
  "file_read_request payload_len payload =
     (if unat payload_len < READ_FILE_REQ_HEADER_SIZE then None
      else case decode_read_file_request payload of
        Inl _ \<Rightarrow> None
      | Inr req \<Rightarrow>
          if unat payload_len < READ_FILE_REQ_HEADER_SIZE + unat (rq_path_len req) then None
          else Some (req, take (unat (rq_path_len req)) (map to_char (drop READ_FILE_REQ_HEADER_SIZE payload))))"

definition neg_errno :: "int \<Rightarrow> i32" where
  "neg_errno e = of_int (- e)"

definition read_room :: "read_file_request_header \<Rightarrow> nat" where
  "read_room req =
     (if rq_max_bytes req > 0 \<and> unat (rq_max_bytes req) < AST_FILE_BUFFER_CAPACITY
      then unat (rq_max_bytes req) else AST_FILE_BUFFER_CAPACITY)"

text \<open>The size, the seek and one read of an open file.\<close>

definition read_open_file ::
  "env \<Rightarrow> read_file_request_header \<Rightarrow> int \<Rightarrow> log \<Rightarrow> (read_file_response_header \<times> byte list) \<times> log" where
  "read_open_file env req fd log =
     (let l1 = log @ [EvFile (Call_Fstat fd)];
          total = (case e_fstat env log fd of Some n \<Rightarrow> of_nat n | None \<Rightarrow> 0);
          (status, l2) =
            (if rq_offset req > 0
             then (case e_lseek env l1 fd of Ok _ \<Rightarrow> 0 | Err e \<Rightarrow> neg_errno e,
                   l1 @ [EvFile (Call_Lseek fd (rq_offset req))])
             else (0, l1))
      in if status \<noteq> 0
         then ((\<lparr>rr_status = status, rr_total_size = total, rr_content_len = 0\<rparr>, []), l2)
         else case sys_read env fd (read_room req) l2 of
           (Err e, l3) \<Rightarrow> ((\<lparr>rr_status = neg_errno e, rr_total_size = total, rr_content_len = 0\<rparr>, []), l3)
         | (Ok bs, l3) \<Rightarrow> ((\<lparr>rr_status = 0, rr_total_size = total, rr_content_len = of_nat (length bs)\<rparr>, bs), l3))"

definition file_read ::
  "env \<Rightarrow> read_file_request_header \<Rightarrow> string \<Rightarrow> log \<Rightarrow> (read_file_response_header \<times> byte list) \<times> log" where
  "file_read env req path log =
     (if \<not> path_ok path then ((read_file_response_header_init\<lparr>rr_status := neg_errno EINVAL\<rparr>, []), log)
      else case sys_open env (c_str path) Open_Read 0 log of
        (Err e, l1) \<Rightarrow> ((read_file_response_header_init\<lparr>rr_status := neg_errno e\<rparr>, []), l1)
      | (Ok fd, l1) \<Rightarrow> (let (res, l2) = read_open_file env req fd l1 in (res, sys_close fd l2)))"

definition handle_read_file :: "'n world \<Rightarrow> handler" where
  "handle_read_file w h payload c =
     (case file_read_request (fh_payload_len h) payload of
        None \<Rightarrow> Done (None, c)
      | Some (req, path) \<Rightarrow>
          (let ((r, bytes), log) = file_read (w_env w) req path (co_log c)
           in Done (Some \<lparr>rs_opcode = ReadFileResponse,
                          rs_payload_len = of_nat (READ_FILE_RESP_HEADER_SIZE + length bytes),
                          rs_header = encode_read_file_response r (anew READ_FILE_RESP_HEADER_SIZE 0),
                          rs_bodies = [bytes]\<rparr>,
                    c\<lparr>co_log := log\<rparr>)))"

definition file_write_request ::
  "u32 \<Rightarrow> byte list \<Rightarrow> (write_file_request_header \<times> string \<times> byte list) option" where
  "file_write_request payload_len payload =
     (if unat payload_len < WRITE_FILE_REQ_HEADER_SIZE then None
      else case decode_write_file_request payload of
        Inl _ \<Rightarrow> None
      | Inr req \<Rightarrow>
          let path_len = unat (wq_path_len req); content_len = unat (wq_content_len req) in
          if unat payload_len < WRITE_FILE_REQ_HEADER_SIZE + path_len + content_len then None
          else let rest = drop WRITE_FILE_REQ_HEADER_SIZE payload
               in Some (req, take path_len (map to_char rest), take content_len (drop path_len rest)))"

text \<open>mkdir of every proper prefix of the path that ends before a slash; failures are ignored.\<close>

definition make_parents :: "string \<Rightarrow> log \<Rightarrow> log" where
  "make_parents path log =
     log @ map (\<lambda>i. EvFile (Call_Mkdir (c_str (take i path)) 493))
       (filter (\<lambda>i. path ! i = CHR ''/'') [1 ..< length path])"

definition write_open_file ::
  "env \<Rightarrow> byte list \<Rightarrow> int \<Rightarrow> log \<Rightarrow> (write_file_response_header \<times> log) run" where
  "write_open_file env content fd log =
     (if content = [] then Done (\<lparr>wr_status = 0, wr_bytes_written = 0\<rparr>, log)
      else run_bind (write_all env fd content log)
        (\<lambda>(ok, l1). Done (if ok then \<lparr>wr_status = 0, wr_bytes_written = of_nat (length content)\<rparr>
                          else write_file_response_header_init\<lparr>wr_status := neg_errno (e_errno env l1)\<rparr>, l1)))"

definition file_write ::
  "env \<Rightarrow> write_file_request_header \<Rightarrow> string \<Rightarrow> byte list \<Rightarrow> log \<Rightarrow>
   (write_file_response_header \<times> log) run" where
  "file_write env req path content log =
     (if \<not> path_ok path
      then Done (write_file_response_header_init\<lparr>wr_status := neg_errno EINVAL\<rparr>, log)
      else case sys_open env (c_str path)
             (if wq_flags req AND 1 \<noteq> 0 then Open_Create_Append else Open_Create_Trunc)
             (if wq_mode req \<noteq> 0 then wq_mode req else 420) (make_parents path log) of
        (Err e, l1) \<Rightarrow> Done (write_file_response_header_init\<lparr>wr_status := neg_errno e\<rparr>, l1)
      | (Ok fd, l1) \<Rightarrow>
          run_bind (write_open_file env content fd l1) (\<lambda>(r, l2). Done (r, sys_close fd l2)))"

definition handle_write_file :: "'n world \<Rightarrow> handler" where
  "handle_write_file w h payload c =
     (case file_write_request (fh_payload_len h) payload of
        None \<Rightarrow> Done (None, c)
      | Some (req, path, content) \<Rightarrow>
          run_bind (file_write (w_env w) req path content (co_log c)) (\<lambda>(r, log).
            Done (Some \<lparr>rs_opcode = WriteFileResponse,
                        rs_payload_len = of_nat WRITE_FILE_RESP_HEADER_SIZE,
                        rs_header = encode_write_file_response r (anew WRITE_FILE_RESP_HEADER_SIZE 0),
                        rs_bodies = []\<rparr>,
                  c\<lparr>co_log := log\<rparr>)))"

section \<open>Dispatch\<close>

definition answer :: "'n world \<Rightarrow> handler \<Rightarrow> int \<Rightarrow> frame_header \<Rightarrow> byte list \<Rightarrow> core \<Rightarrow> (bool \<times> core) run" where
  "answer w handle fd h payload c =
     run_bind (handle h payload c) (\<lambda>(r, c1).
       case r of None \<Rightarrow> Done (True, c1) | Some resp \<Rightarrow> respond (w_env w) fd (fh_request_id h) resp c1)"

definition send_pong :: "env \<Rightarrow> int \<Rightarrow> u32 \<Rightarrow> core \<Rightarrow> (bool \<times> core) run" where
  "send_pong env fd request_id c =
     (case encode_header (\<lparr>fh_magic = WIRE_MAGIC, fh_opcode = opcode_val Pong,
                           fh_request_id = request_id, fh_payload_len = 0\<rparr>) (anew HEADER_SIZE 0) of
        (Inr _, buf) \<Rightarrow> send_parts env fd [apre buf HEADER_SIZE] c
      | (Inl _, buf) \<Rightarrow> Done (True, c))"

text \<open>The flag says that the client is still connected.\<close>

definition dispatch_frame ::
  "'n world \<Rightarrow> int \<Rightarrow> frame_header \<Rightarrow> byte list \<Rightarrow> core \<Rightarrow> (bool \<times> core) run" where
  "dispatch_frame w fd h payload c =
     (case opcode_of (fh_opcode h) of
        Some Ping \<Rightarrow> send_pong (w_env w) fd (fh_request_id h) c
      | Some Exec \<Rightarrow> answer w (handle_exec w) fd h payload c
      | Some AstSymbols \<Rightarrow> answer w (handle_ast_symbols w) fd h payload c
      | Some AstSlice \<Rightarrow> answer w (handle_ast_slice w) fd h payload c
      | Some AstPatch \<Rightarrow> answer w (handle_ast_patch w) fd h payload c
      | Some CdpAction \<Rightarrow> answer w (handle_cdp w) fd h payload c
      | Some ReadFile \<Rightarrow> answer w (handle_read_file w) fd h payload c
      | Some WriteFile \<Rightarrow> answer w (handle_write_file w) fd h payload c
      | Some Shutdown \<Rightarrow> Done (True, c\<lparr>co_running := False\<rparr>)
      | _ \<Rightarrow> Done (True, c))"

end
