(* ===== verification/Server_Contract.thy ===== *)
theory Server_Contract
  imports Server_Handlers
begin

text \<open>
  The contract of a request handler and the proof that every handler of the server keeps it: the log
  only grows, and a response announces in its header exactly the bytes that follow. From the contract
  alone: a request is answered with one frame, or with a proper prefix of it and a closed client.
\<close>

section \<open>Sending a response\<close>

definition frame_sent :: "int \<Rightarrow> u32 \<Rightarrow> opcode \<Rightarrow> bool \<Rightarrow> log \<Rightarrow> bool" where
  "frame_sent fd request_id op keep new \<longleftrightarrow>
     (\<exists>resp rest tail h frame. new = resp @ tail \<and> (\<forall>e \<in> set resp. writes_only fd e) \<and>
        frame = sent fd resp @ rest \<and> (keep \<longleftrightarrow> rest = []) \<and>
        closed tail = (if keep \<or> fd < 0 then [] else [fd]) \<and> (keep \<longrightarrow> tail = []) \<and>
        decode_header frame = Inr h \<and> fh_opcode h = opcode_val op \<and> fh_request_id h = request_id \<and>
        length frame = HEADER_SIZE + unat (fh_payload_len h))"

lemma drop_client_log:
  "\<exists>tail. drop_client env fd c = c\<lparr>co_log := co_log c @ tail\<rparr> \<and> closed tail = (if fd < 0 then [] else [fd]) \<and>
     sent fd' tail = []"
  by (auto simp: drop_client_def reactor_remove_def reactor_ctl_def sys_close_def Let_def log_simps)

lemma send_parts_spec:
  "send_parts env fd ps c = Done (keep, c') \<Longrightarrow>
   \<exists>resp rest tail. c' = c\<lparr>co_log := co_log c @ resp @ tail\<rparr> \<and> (\<forall>e \<in> set resp. writes_only fd e) \<and>
     concat ps = sent fd resp @ rest \<and> (keep \<longleftrightarrow> rest = []) \<and> (keep \<longrightarrow> tail = []) \<and>
     closed tail = (if keep \<or> fd < 0 then [] else [fd])"
proof (induction ps arbitrary: c)
  case Nil
  then show ?case by (intro exI [of _ "[]"]) (auto simp: log_simps)
next
  case (Cons p ps)
  then obtain ok log where w: "write_all env fd p (co_log c) = Done (ok, log)"
    by (cases "write_all env fd p (co_log c)") auto
  then obtain new rest where n: "log = co_log c @ new" "\<forall>e \<in> set new. writes_only fd e"
    "p = sent fd new @ rest" "ok \<longleftrightarrow> rest = []" by (rule write_all_spec)
  show ?case
  proof (cases ok)
    case True
    with Cons.prems w have "send_parts env fd ps (c\<lparr>co_log := log\<rparr>) = Done (keep, c')" by simp
    from Cons.IH [OF this] obtain resp rest' tail where
      "c' = c\<lparr>co_log := log @ resp @ tail\<rparr>" "\<forall>e \<in> set resp. writes_only fd e"
      "concat ps = sent fd resp @ rest'" "keep \<longleftrightarrow> rest' = []" "keep \<longrightarrow> tail = []"
      "closed tail = (if keep \<or> fd < 0 then [] else [fd])" by auto
    with n True show ?thesis
      by (intro exI [of _ "new @ resp"] exI [of _ rest'] exI [of _ tail]) (auto simp: log_simps)
  next
    case False
    obtain tail where t: "drop_client env fd (c\<lparr>co_log := log\<rparr>) = c\<lparr>co_log := log @ tail\<rparr>"
      "closed tail = (if fd < 0 then [] else [fd])"
      using drop_client_log [of env fd "c\<lparr>co_log := log\<rparr>"] by auto
    from Cons.prems w False t(1) have "keep = False" "c' = c\<lparr>co_log := log @ tail\<rparr>" by simp_all
    with n False t(2) show ?thesis
      by (intro exI [of _ new] exI [of _ "rest @ concat ps"] exI [of _ tail]) auto
  qed
qed

text \<open>A response that announces what follows, for the request's opcode.\<close>

definition response_ok :: "opcode \<Rightarrow> response \<Rightarrow> bool" where
  "response_ok op r \<longleftrightarrow> rs_opcode r = op \<and> (\<exists>n. fst (rs_header r) = Inr n) \<and>
     unat (rs_payload_len r) = alen (snd (rs_header r)) + length (concat (rs_bodies r))"

lemma concat_filter_nonempty [simp]: "concat (filter (\<lambda>p. p \<noteq> []) ps) = concat ps"
  by (induction ps) auto

lemma respond_frame:
  assumes "respond env fd request_id r c = Done (keep, c')" and "response_ok op r"
  shows "\<exists>new. co_log c' = co_log c @ new \<and> frame_sent fd request_id op keep new"
proof -
  let ?h = "response_header request_id r"
  have magic: "fh_magic ?h = WIRE_MAGIC" by (simp add: response_header_def)
  have enc: "fst (encode_header ?h (anew HEADER_SIZE 0)) = Inr HEADER_SIZE"
    "apre (snd (encode_header ?h (anew HEADER_SIZE 0))) HEADER_SIZE = fh_bytes ?h"
    using fh.encode_room [of "anew HEADER_SIZE 0" ?h] by (simp_all add: encode_header_def)
  obtain n b2 where b2: "rs_header r = (Inr n, b2)"
    using assms(2) by (cases "rs_header r") (auto simp: response_ok_def)
  let ?frame = "fh_bytes ?h @ apre b2 (alen b2) @ concat (rs_bodies r)"
  have "send_parts env fd ((fh_bytes ?h @ apre b2 (alen b2)) # filter (\<lambda>p. p \<noteq> []) (rs_bodies r)) c
      = Done (keep, c')"
    using assms(1) enc b2
    by (cases "encode_header ?h (anew HEADER_SIZE 0)") (simp add: respond_def)
  from send_parts_spec [OF this] obtain resp rest tail where
    s: "c' = c\<lparr>co_log := co_log c @ resp @ tail\<rparr>" "\<forall>e \<in> set resp. writes_only fd e"
      "?frame = sent fd resp @ rest" "keep \<longleftrightarrow> rest = []" "keep \<longrightarrow> tail = []"
      "closed tail = (if keep \<or> fd < 0 then [] else [fd])"
    by auto
  have "decode_header ?frame = Inr ?h" by (rule decode_header_bytes [OF magic])
  moreover have "length ?frame = HEADER_SIZE + unat (fh_payload_len ?h)"
    using assms(2) b2 by (simp add: response_ok_def response_header_def HEADER_SIZE_def)
  moreover have "fh_opcode ?h = opcode_val op" "fh_request_id ?h = request_id"
    using assms(2) by (simp_all add: response_ok_def response_header_def)
  ultimately have "frame_sent fd request_id op keep (resp @ tail)"
    unfolding frame_sent_def using s(2-6) by metis
  with s(1) show ?thesis by auto
qed

section \<open>The contract\<close>

locale request_handler =
  fixes handle :: handler
    and op :: opcode
    and well_formed :: "frame_header \<Rightarrow> byte list \<Rightarrow> bool"
  assumes handle_grows: "handle h payload c = Done (r, c') \<Longrightarrow> \<exists>new. co_log c' = co_log c @ new"
    and handle_shape: "handle h payload c = Done (Some resp, c') \<Longrightarrow> response_ok op resp"
    and handle_replies: "handle h payload c = Done (r, c') \<Longrightarrow> well_formed h payload \<Longrightarrow> r \<noteq> None"
    and handle_malformed: "\<not> well_formed h payload \<Longrightarrow> handle h payload c = Done (None, c)"
begin

lemma answer_frame:
  assumes "answer w handle fd h payload c = Done (keep, c')" and "well_formed h payload"
  shows "\<exists>work new. co_log c' = co_log c @ work @ new \<and> frame_sent fd (fh_request_id h) op keep new"
proof -
  obtain r c1 where h: "handle h payload c = Done (r, c1)"
    using assms(1) by (cases "handle h payload c") (auto simp: answer_def)
  then obtain resp where r: "r = Some resp" using handle_replies [OF h assms(2)] by blast
  obtain work where w: "co_log c1 = co_log c @ work" using handle_grows [OF h] by blast
  have "respond (w_env w) fd (fh_request_id h) resp c1 = Done (keep, c')"
    using assms(1) h r by (simp add: answer_def)
  from respond_frame [OF this handle_shape [OF h [unfolded r]]] w show ?thesis by auto
qed

lemma answer_malformed:
  "\<not> well_formed h payload \<Longrightarrow> answer w handle fd h payload c = Done (True, c)"
  by (simp add: answer_def handle_malformed)

end

section \<open>Every handler keeps it\<close>

text \<open>The lengths that go into the headers stay far below $2^{32}$.\<close>

lemma unat_of_nat_small: "n < 2 ^ 32 \<Longrightarrow> unat (of_nat n :: u32) = n"
  by (simp add: unat_of_nat)

lemma encode_struct_fits [simp]:
  "fst (encode_struct sz f h (anew sz 0)) = Inr sz" "alen (snd (encode_struct sz f h (anew sz 0))) = sz"
  by (simp_all add: encode_struct_def)

lemmas encoders = encode_exec_response_def encode_ast_symbols_response_def encode_ast_slice_response_def
  encode_ast_patch_response_def encode_cdp_response_def encode_read_file_response_def
  encode_write_file_response_def

lemma collect_output_length:
  assumes "collect_output flags ring ansi out = (n, ansi', out')"
  shows "n \<le> alen out"
proof (cases "flags AND EXEC_FLAG_STRIP_ANSI = 0")
  case True
  with assms have "n = fst (rb_linearize ring out)" by (auto simp: collect_output_def split: prod.splits)
  then show ?thesis by (simp add: rb_linearize_fst)
next
  case False
  with assms obtain bs where "ansi_filter ansi bs out = (n, ansi', out')"
    by (auto simp: collect_output_def split: prod.splits)
  with ansi_filter_refines [of ansi bs out] show ?thesis by auto
qed

lemma collect_diff_length:
  assumes "0 < alen dest" "collect_diff flags os pre dir dest = (n, dest')"
  shows "n \<le> alen dest"
proof -
  have "fst (compute_diff pre post dest) \<le> alen dest" for post
    using compute_diff_refines [OF assms(1), of pre post] by (simp add: diff_inv_def)
  then show ?thesis using assms(2)
    by (auto simp: collect_diff_def split: if_splits prod.splits sum.splits) (metis fst_conv)
qed

lemma process_run_lengths:
  assumes "process_run env dirs r opts out diff log = Done (Inr x, r', out', diff', log')" "0 < alen diff"
  shows "er_output_len x \<le> alen out \<and> er_diff_len x \<le> alen diff"
  using assms(1)
proof (cases rule: process_run_cases)
  case (watched rfd wfd wres m)
  then obtain pre watch_dir start l where f: "process_finish env dirs opts pre watch_dir start m Ground out diff l
      = (Inr x, r', out', diff', log')"
    by (cases wres) auto
  obtain n a o' where c: "collect_output (xo_flags opts) (mo_ring m) Ground out = (n, a, o')"
    by (cases "collect_output (xo_flags opts) (mo_ring m) Ground out")
  obtain k d' where d: "collect_diff (xo_flags opts) (dirs (l @ [EvCycles])) pre watch_dir diff = (k, d')"
    by (cases "collect_diff (xo_flags opts) (dirs (l @ [EvCycles])) pre watch_dir diff")
  from f c d have "er_output_len x = n" "er_diff_len x = k"
    by (auto simp: process_finish_def Let_def)
  with collect_output_length [OF c] collect_diff_length [OF assms(2) d] show ?thesis by simp
qed auto

lemma exec_handler_shape:
  assumes "handle_exec w h payload c = Done (r, c')"
  shows "(\<exists>new. co_log c' = co_log c @ new) \<and> (\<forall>resp. r = Some resp \<longrightarrow> response_ok ExecOutput resp)"
proof (cases "exec_request (fh_payload_len h) payload")
  case None
  with assms show ?thesis by (auto simp: handle_exec_def)
next
  case (Some opts)
  let ?run = "process_run (w_env w) (w_dirs w) (co_runner c) opts (anew RING_BUFFER_CAPACITY 0)
    (anew EXEC_DIFF_CAPACITY CHR 0x00) (co_log c)"
  obtain res runner out diff log where run: "?run = Done (res, runner, out, diff, log)"
    using assms Some by (cases ?run) (auto simp: handle_exec_def)
  obtain new where n: "log = co_log c @ new" using process_run_closed [OF run] by blast
  have len: "unat (xr_output_len (exec_response res)) \<le> 65536" "unat (xr_diff_len (exec_response res)) \<le> 8192"
  proof -
    have "er_output_len x \<le> 65536 \<and> er_diff_len x \<le> 8192" if "res = Inr x" for x
      using process_run_lengths [OF run [unfolded that]] by (simp add: RING_BUFFER_CAPACITY_def EXEC_DIFF_CAPACITY_def)
    then show "unat (xr_output_len (exec_response res)) \<le> 65536" "unat (xr_diff_len (exec_response res)) \<le> 8192"
      by (auto simp: exec_response_def exec_response_header_init_def unat_of_nat_small split: sum.splits)
  qed
  have "unat (of_nat EXEC_RESP_HEADER_SIZE + xr_output_len (exec_response res) + xr_diff_len (exec_response res))
      = EXEC_RESP_HEADER_SIZE + unat (xr_output_len (exec_response res)) + unat (xr_diff_len (exec_response res))"
    using len by (simp add: EXEC_RESP_HEADER_SIZE_def unat_word_ariths)
  with assms Some run n show ?thesis
    by (auto simp: handle_exec_def response_ok_def encoders Let_def)
qed

lemma read_file_loop_spec:
  "read_file_loop env fuel fd room acc log = Done (r, log') \<Longrightarrow>
   (\<exists>new. log' = log @ new) \<and> (\<forall>bytes. r = Inr bytes \<longrightarrow> length bytes \<le> length acc + room)"
proof (induction fuel arbitrary: room acc log)
  case 0
  then show ?case by (auto split: if_splits)
next
  case (Suc fuel)
  show ?case
  proof (cases "room = 0")
    case True
    with Suc.prems show ?thesis by auto
  next
    case False
    show ?thesis
    proof (cases "e_read env log fd room")
      case (Err e)
      with Suc.prems False Suc.IH [of room acc "log @ [EvRead fd []]"] show ?thesis
        by (auto simp: sys_read_def split: if_splits)
    next
      case (Ok bs)
      with Suc.prems False Suc.IH [of "room - length (take room bs)" "acc @ take room bs"
          "log @ [EvRead fd (take room bs)]"]
      show ?thesis by (auto simp: sys_read_def min_def split: if_splits)
    qed
  qed
qed

lemma read_file_spec:
  assumes "read_file env path room log = Done (r, log')"
  shows "(\<exists>new. log' = log @ new) \<and> (\<forall>bytes. r = Inr bytes \<longrightarrow> length bytes \<le> room)"
proof (cases "path_ok path \<and> (\<exists>fd. e_open env log (c_str path) = Ok fd)")
  case False
  with assms show ?thesis
    by (auto simp: read_file_def sys_open_def split: if_splits sysres.splits)
next
  case True
  then obtain fd where fd: "e_open env log (c_str path) = Ok fd" by blast
  let ?l1 = "log @ [EvOpen (c_str path) Open_Read 0]"
  obtain log2 where "read_file_loop env (e_fuel env) fd room [] ?l1 = Done (r, log2)" "log' = sys_close fd log2"
    using assms True fd by (auto simp: read_file_def sys_open_def run_bind_Done)
  with read_file_loop_spec [of env "e_fuel env" fd room "[]" ?l1 r log2] show ?thesis
    by (auto simp: sys_close_def)
qed

lemma load_source_spec:
  assumes "load_source env path log = Done (src, log')"
  shows "(\<exists>new. log' = log @ new) \<and>
    (\<forall>source l. src = Inr (source, l) \<longrightarrow> length source \<le> AST_FILE_BUFFER_CAPACITY)"
proof -
  obtain r where r: "read_file env path AST_FILE_BUFFER_CAPACITY log = Done (r, log')"
    using assms by (cases "read_file env path AST_FILE_BUFFER_CAPACITY log")
      (auto simp: load_source_def split: sum.splits if_splits)
  with assms read_file_spec [OF r] show ?thesis
    by (auto simp: load_source_def split: sum.splits if_splits)
qed

lemma put_chk_bound: "put_chk out t = Some out' \<Longrightarrow> snd out' \<le> alen (fst out') \<and> alen (fst out') = alen (fst out)"
  by (auto simp: put_chk_def acopy_chk_def split: if_splits)

lemma format_symbol_bound:
  "format_symbol s out = Done (Inr out') \<Longrightarrow> snd out' \<le> alen (fst out') \<and> alen (fst out') = alen (fst out)"
  by (auto simp: format_symbol_def run_bind_Done run_of_Done to_chars_at_def Let_def
      Option.bind_eq_Some_conv split: if_splits option.splits dest!: put_chk_bound)

lemma format_loop_bound:
  "format_loop syms out = Done (Inr out') \<Longrightarrow> snd out \<le> alen (fst out) \<Longrightarrow>
   snd out' \<le> alen (fst out') \<and> alen (fst out') = alen (fst out)"
proof (induction syms arbitrary: out)
  case Nil
  then show ?case by simp
next
  case (Cons s syms)
  then show ?case
    by (auto simp: run_cases dest!: format_symbol_bound)
qed

lemma symbols_table_length:
  assumes "symbols_table w source l = Done (r, table)"
  shows "length table \<le> AST_FILE_BUFFER_CAPACITY"
  using assms
  by (auto simp: symbols_table_def format_symbols_def run_cases dest!: format_loop_bound)

lemma symbols_handler_shape:
  assumes "handle_ast_symbols w h payload c = Done (r, c')"
  shows "(\<exists>new. co_log c' = co_log c @ new) \<and> (\<forall>resp. r = Some resp \<longrightarrow> response_ok AstSymbolsResponse resp)"
proof (cases "symbols_request (fh_payload_len h) payload")
  case None
  with assms show ?thesis by (auto simp: handle_ast_symbols_def)
next
  case (Some path)
  obtain src log where l: "load_source (w_env w) path (co_log c) = Done (src, log)"
    using assms Some by (cases "load_source (w_env w) path (co_log c)") (auto simp: handle_ast_symbols_def)
  obtain hd table where t: "(case src of
      Inl status \<Rightarrow> Done (ast_symbols_response_header_init\<lparr>yr_status := status\<rparr>, [])
    | Inr (source, l) \<Rightarrow> symbols_table w source l) = Done (hd, table)"
    and r: "r = Some \<lparr>rs_opcode = AstSymbolsResponse,
        rs_payload_len = of_nat (AST_SYMBOLS_RESP_HEADER_SIZE + length table),
        rs_header = encode_ast_symbols_response hd (anew AST_SYMBOLS_RESP_HEADER_SIZE 0),
        rs_bodies = [map to_byte table]\<rparr>" and c': "c' = c\<lparr>co_log := log\<rparr>"
    using assms Some l by (auto simp: handle_ast_symbols_def run_bind_Done)
  have "length table \<le> AST_FILE_BUFFER_CAPACITY"
    using t symbols_table_length by (auto split: sum.splits)
  then have "unat (of_nat (AST_SYMBOLS_RESP_HEADER_SIZE + length table) :: u32)
      = AST_SYMBOLS_RESP_HEADER_SIZE + length table"
    by (intro unat_of_nat_small) (simp add: AST_FILE_BUFFER_CAPACITY_def AST_SYMBOLS_RESP_HEADER_SIZE_def)
  with load_source_spec [OF l] r c' show ?thesis by (simp add: response_ok_def encoders)
qed

lemma slice_symbol_length:
  "slice_symbol ts fuel parser source l name = Done (Inr s) \<Longrightarrow> length (sl_content s) \<le> length source"
  by (auto simp: slice_symbol_def run_cases substr_def Let_def split: if_splits)

lemma slice_handler_shape:
  assumes "handle_ast_slice w h payload c = Done (r, c')"
  shows "(\<exists>new. co_log c' = co_log c @ new) \<and> (\<forall>resp. r = Some resp \<longrightarrow> response_ok AstSliceResponse resp)"
proof (cases "slice_request (fh_payload_len h) payload")
  case None
  with assms show ?thesis by (auto simp: handle_ast_slice_def)
next
  case (Some req)
  obtain path name where req: "req = (path, name)" by (cases req)
  obtain src log where l: "load_source (w_env w) path (co_log c) = Done (src, log)"
    using assms Some req by (cases "load_source (w_env w) path (co_log c)") (auto simp: handle_ast_slice_def)
  obtain hd content where t: "(case src of
      Inl status \<Rightarrow> Done (ast_slice_response_header_init\<lparr>lr_status := status\<rparr>, [])
    | Inr (source, l) \<Rightarrow> run_bind (slice_symbol (w_ts w) (w_ts_fuel w) (w_parser w) source l name)
        (\<lambda>r. Done (slice_response r))) = Done (hd, content)"
    and r: "r = Some \<lparr>rs_opcode = AstSliceResponse,
        rs_payload_len = of_nat (AST_SLICE_RESP_HEADER_SIZE + unat (lr_content_len hd)),
        rs_header = encode_ast_slice_response hd (anew AST_SLICE_RESP_HEADER_SIZE 0),
        rs_bodies = [map to_byte (take (unat (lr_content_len hd)) content)]\<rparr>"
    and c': "c' = c\<lparr>co_log := log\<rparr>"
    using assms Some l req by (auto simp: handle_ast_slice_def run_bind_Done)
  have "length content \<le> AST_FILE_BUFFER_CAPACITY \<and> unat (lr_content_len hd) = length content"
  proof (cases src)
    case (Inl status)
    with t show ?thesis by (auto simp: ast_slice_response_header_init_def)
  next
    case (Inr sl)
    then obtain source lg sr where "sl = (source, lg)" "length source \<le> AST_FILE_BUFFER_CAPACITY"
      "slice_symbol (w_ts w) (w_ts_fuel w) (w_parser w) source lg name = Done sr"
      "slice_response sr = (hd, content)"
      using t load_source_spec [OF l] by (cases sl) (auto simp: run_bind_Done)
    with slice_symbol_length [of "w_ts w" "w_ts_fuel w" "w_parser w" source lg name] show ?thesis
      by (cases sr) (fastforce simp: slice_response_def ast_slice_response_header_init_def
          AST_FILE_BUFFER_CAPACITY_def unat_of_nat_small)+
  qed
  moreover from this have "unat (of_nat (AST_SLICE_RESP_HEADER_SIZE + unat (lr_content_len hd)) :: u32)
      = AST_SLICE_RESP_HEADER_SIZE + unat (lr_content_len hd)"
    by (intro unat_of_nat_small) (simp add: AST_FILE_BUFFER_CAPACITY_def AST_SLICE_RESP_HEADER_SIZE_def)
  ultimately show ?thesis using load_source_spec [OF l] r c' by (simp add: response_ok_def encoders)
qed

lemma write_file_grows:
  "write_file env path content log = Done (r, log') \<Longrightarrow> \<exists>new. log' = log @ new"
  by (auto simp: write_file_def sys_open_def sys_close_def run_bind_Done
      split: if_splits sysres.splits elim!: write_all_spec)

lemma patch_file_grows:
  "patch_file w path name rep source l log = Done (r, log') \<Longrightarrow> \<exists>new. log' = log @ new"
  by (auto simp: patch_file_def run_cases dest!: write_file_grows)

lemma patch_handler_shape:
  assumes "handle_ast_patch w h payload c = Done (r, c')"
  shows "(\<exists>new. co_log c' = co_log c @ new) \<and> (\<forall>resp. r = Some resp \<longrightarrow> response_ok AstPatchResponse resp)"
proof (cases "patch_request (fh_payload_len h) payload")
  case None
  with assms show ?thesis by (auto simp: handle_ast_patch_def)
next
  case (Some req)
  obtain path name rep where req: "req = (path, name, rep)" by (cases req)
  obtain src log where l: "load_source (w_env w) path (co_log c) = Done (src, log)"
    using assms Some req by (cases "load_source (w_env w) path (co_log c)") (auto simp: handle_ast_patch_def)
  obtain hd log1 where t: "(case src of
      Inl status \<Rightarrow> Done (ast_patch_response_header_init\<lparr>pr_status := status\<rparr>, log)
    | Inr (source, l) \<Rightarrow> patch_file w path name rep source l log) = Done (hd, log1)"
    and r: "r = Some \<lparr>rs_opcode = AstPatchResponse, rs_payload_len = of_nat AST_PATCH_RESP_HEADER_SIZE,
        rs_header = encode_ast_patch_response hd (anew AST_PATCH_RESP_HEADER_SIZE 0), rs_bodies = []\<rparr>"
    and c': "c' = c\<lparr>co_log := log1\<rparr>"
    using assms Some l req by (auto simp: handle_ast_patch_def run_bind_Done)
  have "\<exists>new. log1 = log @ new"
    using t by (auto split: sum.splits dest: patch_file_grows)
  with load_source_spec [OF l] r c' show ?thesis
    by (auto simp: response_ok_def encoders AST_PATCH_RESP_HEADER_SIZE_def)
qed

lemma cdp_tree_spec:
  assumes "cdp_tree env b log = Done (t, b', log')"
  shows "(\<exists>new. log' = log @ new) \<and> (\<forall>count text. t = Inr (count, text) \<longrightarrow> length text \<le> MAX_TREE_TEXT_SIZE)"
proof -
  let ?nodes = "fv_new MAX_AX_NODES ax_node_init" and ?buf = "anew MAX_TREE_TEXT_SIZE CHR 0x00"
  obtain r nodes buf b1 log1 where g0: "get_axtree env ?nodes ?buf b log = Done (r, nodes, buf, b1, log1)"
    using assms by (cases "get_axtree env ?nodes ?buf b log") (auto simp: cdp_tree_def)
  then have eqs: "b1 = b'" "log1 = log'"
    and t: "t = (case r of Inl e \<Rightarrow> Inl e | Inr n \<Rightarrow> Inr (fv_size nodes, apre buf n))"
    using assms by (auto simp: cdp_tree_def split: sum.splits)
  note g = g0 [unfolded eqs]
  have "\<exists>new. log' = log @ new" using grow.get_axtree_R [OF g] by simp
  moreover have "n \<le> MAX_TREE_TEXT_SIZE" if r: "r = Inr n" for n
  proof -
    obtain reply b2 l2 where ar: "axtree_reply env b log = Done (reply, b2, l2)"
      using g by (cases "axtree_reply env b log") (auto simp: get_axtree_def)
    obtain json where json: "reply = Inr json"
      using g ar r by (cases reply) (auto simp: get_axtree_def)
    obtain x nd bf hm where ff: "filter_and_format json ?nodes ?buf (br_handles b2) = (x, nd, bf, hm)"
      by (metis prod_cases4)
    with g ar r json have "x = Inr n" by (simp add: get_axtree_def)
    with filter_and_format_shape [of json ?nodes ?buf "br_handles b2"] ff show ?thesis by simp
  qed
  ultimately show ?thesis by (auto simp: t split: sum.splits)
qed

definition grows_bm :: "'a bm \<Rightarrow> bool" where
  "grows_bm m \<longleftrightarrow> obeys (\<lambda>(b, log) (b', log'). \<exists>new. log' = log @ new) m"

lemma grows_bmD: "grows_bm m \<Longrightarrow> m b log = Done (r, b', log') \<Longrightarrow> \<exists>new. log' = log @ new"
  unfolding grows_bm_def by (drule obeysD) auto

lemmas grows_actions = grow.obeys_navigate [folded grows_bm_def] grow.obeys_click [folded grows_bm_def]
  grow.obeys_type [folded grows_bm_def] grow.obeys_scroll [folded grows_bm_def]

lemma act_and_tree_spec:
  assumes "grows_bm act" "act_and_tree env act b log = Done ((r, text), b', log')"
  shows "(\<exists>new. log' = log @ new) \<and> length text \<le> MAX_TREE_TEXT_SIZE"
proof -
  obtain a b1 log1 where a: "act b log = Done (a, b1, log1)"
    using assms(2) by (cases "act b log") (auto simp: act_and_tree_def)
  obtain more where m: "log1 = log @ more" using grows_bmD [OF assms(1) a] by blast
  show ?thesis
  proof (cases a)
    case (Inl e)
    with assms(2) a m show ?thesis by (auto simp: act_and_tree_def)
  next
    case (Inr u)
    obtain t b2 log2 where t: "cdp_tree env b1 log1 = Done (t, b2, log2)"
      using assms(2) a Inr by (cases "cdp_tree env b1 log1") (auto simp: act_and_tree_def)
    with assms(2) a Inr m cdp_tree_spec [OF t] show ?thesis
      by (cases t) (auto simp: act_and_tree_def)
  qed
qed

lemma act_only_spec:
  assumes "grows_bm act" "act_only act b log = Done ((r, text), b', log')"
  shows "(\<exists>new. log' = log @ new) \<and> length text \<le> MAX_TREE_TEXT_SIZE"
  using assms(2) by (auto simp: act_only_def run_cases dest!: grows_bmD [OF assms(1)])

lemma cdp_action_spec:
  assumes "cdp_action env req p1 b log = Done ((r, text), b', log')"
  shows "(\<exists>new. log' = log @ new) \<and> length text \<le> MAX_TREE_TEXT_SIZE"
proof (cases "cdp_action_of (cq_action req)")
  case None
  with assms show ?thesis by (auto simp: cdp_action_def)
next
  case (Some a)
  show ?thesis
  proof (cases a)
    case GetTree
    obtain t b2 log2 where t: "cdp_tree env b log = Done (t, b2, log2)"
      using assms Some GetTree by (cases "cdp_tree env b log") (auto simp: cdp_action_def)
    with assms Some GetTree cdp_tree_spec [OF t] show ?thesis
      by (cases t) (auto simp: cdp_action_def)
  qed (use assms Some in \<open>auto simp: cdp_action_def dest!: act_and_tree_spec [OF grows_actions(1)]
      act_and_tree_spec [OF grows_actions(2)] act_only_spec [OF grows_actions(3)]
      act_only_spec [OF grows_actions(4)]\<close>)
qed

lemma cdp_handler_shape:
  assumes "handle_cdp w h payload c = Done (r, c')"
  shows "(\<exists>new. co_log c' = co_log c @ new) \<and> (\<forall>resp. r = Some resp \<longrightarrow> response_ok CdpActionResponse resp)"
proof (cases "cdp_request (fh_payload_len h) payload")
  case None
  with assms show ?thesis by (auto simp: handle_cdp_def)
next
  case (Some rq)
  obtain req p1 where rq: "rq = (req, p1)" by (cases rq)
  obtain hd tree b log where a: "cdp_action (w_env w) req p1 (co_bridge c) (co_log c) = Done ((hd, tree), b, log)"
    using assms Some rq by (cases "cdp_action (w_env w) req p1 (co_bridge c) (co_log c)")
      (auto simp: handle_cdp_def)
  note spec = cdp_action_spec [OF a]
  have "unat (of_nat (CDP_RESP_HEADER_SIZE + length tree) :: u32) = CDP_RESP_HEADER_SIZE + length tree"
    using spec by (intro unat_of_nat_small) (simp add: MAX_TREE_TEXT_SIZE_def CDP_RESP_HEADER_SIZE_def)
  with spec assms Some rq a show ?thesis
    by (auto simp: handle_cdp_def response_ok_def encoders)
qed

lemma read_open_file_spec:
  "read_open_file env req fd log = ((r, bytes), log') \<Longrightarrow>
   (\<exists>new. log' = log @ new) \<and> length bytes \<le> AST_FILE_BUFFER_CAPACITY"
  by (auto simp: read_open_file_def sys_read_def Let_def read_room_def split: if_splits sysres.splits prod.splits)

lemma file_read_spec:
  assumes "file_read env req path log = ((r, bytes), log')"
  shows "(\<exists>new. log' = log @ new) \<and> length bytes \<le> AST_FILE_BUFFER_CAPACITY"
  using assms
  by (auto simp: file_read_def sys_open_def sys_close_def split: if_splits sysres.splits prod.splits
      dest!: read_open_file_spec)

lemma read_handler_shape:
  assumes "handle_read_file w h payload c = Done (r, c')"
  shows "(\<exists>new. co_log c' = co_log c @ new) \<and> (\<forall>resp. r = Some resp \<longrightarrow> response_ok ReadFileResponse resp)"
proof (cases "file_read_request (fh_payload_len h) payload")
  case None
  with assms show ?thesis by (auto simp: handle_read_file_def)
next
  case (Some rq)
  obtain req path where rq: "rq = (req, path)" by (cases rq)
  obtain hd bytes log where f: "file_read (w_env w) req path (co_log c) = ((hd, bytes), log)"
    by (metis prod.collapse)
  note spec = file_read_spec [OF f]
  have "unat (of_nat (READ_FILE_RESP_HEADER_SIZE + length bytes) :: u32) = READ_FILE_RESP_HEADER_SIZE + length bytes"
    using spec by (intro unat_of_nat_small) (simp add: AST_FILE_BUFFER_CAPACITY_def READ_FILE_RESP_HEADER_SIZE_def)
  with spec assms Some rq f show ?thesis
    by (auto simp: handle_read_file_def response_ok_def encoders)
qed

lemma write_open_file_grows:
  "write_open_file env content fd log = Done (r, log') \<Longrightarrow> \<exists>new. log' = log @ new"
  by (auto simp: write_open_file_def run_cases split: if_splits elim!: write_all_spec)

lemma file_write_grows:
  "file_write env req path content log = Done (r, log') \<Longrightarrow> \<exists>new. log' = log @ new"
  by (auto simp: file_write_def sys_open_def sys_close_def make_parents_def run_cases
      split: if_splits sysres.splits dest!: write_open_file_grows)

lemma write_handler_shape:
  assumes "handle_write_file w h payload c = Done (r, c')"
  shows "(\<exists>new. co_log c' = co_log c @ new) \<and> (\<forall>resp. r = Some resp \<longrightarrow> response_ok WriteFileResponse resp)"
  using assms
  by (auto simp: handle_write_file_def run_cases response_ok_def encoders WRITE_FILE_RESP_HEADER_SIZE_def
      dest!: file_write_grows split: option.splits)

text \<open>A request is answered exactly when its payload can be read.\<close>

lemma handlers_reply:
  "handle_exec w h payload c = Done (r, c') \<Longrightarrow> exec_request (fh_payload_len h) payload \<noteq> None \<Longrightarrow> r \<noteq> None"
  "handle_ast_symbols w h payload c = Done (r, c') \<Longrightarrow> symbols_request (fh_payload_len h) payload \<noteq> None \<Longrightarrow> r \<noteq> None"
  "handle_ast_slice w h payload c = Done (r, c') \<Longrightarrow> slice_request (fh_payload_len h) payload \<noteq> None \<Longrightarrow> r \<noteq> None"
  "handle_ast_patch w h payload c = Done (r, c') \<Longrightarrow> patch_request (fh_payload_len h) payload \<noteq> None \<Longrightarrow> r \<noteq> None"
  "handle_cdp w h payload c = Done (r, c') \<Longrightarrow> cdp_request (fh_payload_len h) payload \<noteq> None \<Longrightarrow> r \<noteq> None"
  "handle_read_file w h payload c = Done (r, c') \<Longrightarrow> file_read_request (fh_payload_len h) payload \<noteq> None \<Longrightarrow> r \<noteq> None"
  "handle_write_file w h payload c = Done (r, c') \<Longrightarrow> file_write_request (fh_payload_len h) payload \<noteq> None \<Longrightarrow> r \<noteq> None"
  by (auto simp: handle_exec_def handle_ast_symbols_def handle_ast_slice_def handle_ast_patch_def
      handle_cdp_def handle_read_file_def handle_write_file_def run_bind_Done Let_def split: prod.splits)

lemma handlers_malformed:
  "\<not> exec_request (fh_payload_len h) payload \<noteq> None \<Longrightarrow> handle_exec w h payload c = Done (None, c)"
  "\<not> symbols_request (fh_payload_len h) payload \<noteq> None \<Longrightarrow> handle_ast_symbols w h payload c = Done (None, c)"
  "\<not> slice_request (fh_payload_len h) payload \<noteq> None \<Longrightarrow> handle_ast_slice w h payload c = Done (None, c)"
  "\<not> patch_request (fh_payload_len h) payload \<noteq> None \<Longrightarrow> handle_ast_patch w h payload c = Done (None, c)"
  "\<not> cdp_request (fh_payload_len h) payload \<noteq> None \<Longrightarrow> handle_cdp w h payload c = Done (None, c)"
  "\<not> file_read_request (fh_payload_len h) payload \<noteq> None \<Longrightarrow> handle_read_file w h payload c = Done (None, c)"
  "\<not> file_write_request (fh_payload_len h) payload \<noteq> None \<Longrightarrow> handle_write_file w h payload c = Done (None, c)"
  by (simp_all add: handle_exec_def handle_ast_symbols_def handle_ast_slice_def handle_ast_patch_def
      handle_cdp_def handle_read_file_def handle_write_file_def del: not_None_eq)

text \<open>The seven handlers as instances of the contract.\<close>

interpretation exec_h: request_handler "handle_exec w" ExecOutput
    "\<lambda>h payload. exec_request (fh_payload_len h) payload \<noteq> None" for w
  by unfold_locales (blast dest: exec_handler_shape handlers_reply intro: handlers_malformed)+

interpretation symbols_h: request_handler "handle_ast_symbols w" AstSymbolsResponse
    "\<lambda>h payload. symbols_request (fh_payload_len h) payload \<noteq> None" for w
  by unfold_locales (blast dest: symbols_handler_shape handlers_reply intro: handlers_malformed)+

interpretation slice_h: request_handler "handle_ast_slice w" AstSliceResponse
    "\<lambda>h payload. slice_request (fh_payload_len h) payload \<noteq> None" for w
  by unfold_locales (blast dest: slice_handler_shape handlers_reply intro: handlers_malformed)+

interpretation patch_h: request_handler "handle_ast_patch w" AstPatchResponse
    "\<lambda>h payload. patch_request (fh_payload_len h) payload \<noteq> None" for w
  by unfold_locales (blast dest: patch_handler_shape handlers_reply intro: handlers_malformed)+

interpretation cdp_h: request_handler "handle_cdp w" CdpActionResponse
    "\<lambda>h payload. cdp_request (fh_payload_len h) payload \<noteq> None" for w
  by unfold_locales (blast dest: cdp_handler_shape handlers_reply intro: handlers_malformed)+

interpretation read_h: request_handler "handle_read_file w" ReadFileResponse
    "\<lambda>h payload. file_read_request (fh_payload_len h) payload \<noteq> None" for w
  by unfold_locales (blast dest: read_handler_shape handlers_reply intro: handlers_malformed)+

interpretation write_h: request_handler "handle_write_file w" WriteFileResponse
    "\<lambda>h payload. file_write_request (fh_payload_len h) payload \<noteq> None" for w
  by unfold_locales (blast dest: write_handler_shape handlers_reply intro: handlers_malformed)+

section \<open>What a request is answered with\<close>

fun response_opcode :: "opcode option \<Rightarrow> opcode option" where
  "response_opcode (Some Ping) = Some Pong"
| "response_opcode (Some Exec) = Some ExecOutput"
| "response_opcode (Some AstSymbols) = Some AstSymbolsResponse"
| "response_opcode (Some AstSlice) = Some AstSliceResponse"
| "response_opcode (Some AstPatch) = Some AstPatchResponse"
| "response_opcode (Some CdpAction) = Some CdpActionResponse"
| "response_opcode (Some ReadFile) = Some ReadFileResponse"
| "response_opcode (Some WriteFile) = Some WriteFileResponse"
| "response_opcode _ = None"

lemma pong_frame:
  assumes "send_pong env fd request_id c = Done (keep, c')"
  shows "\<exists>new. co_log c' = co_log c @ new \<and> frame_sent fd request_id Pong keep new"
proof -
  let ?h = "\<lparr>fh_magic = WIRE_MAGIC, fh_opcode = opcode_val Pong, fh_request_id = request_id, fh_payload_len = 0\<rparr>"
  have enc: "fst (encode_header ?h (anew HEADER_SIZE 0)) = Inr HEADER_SIZE"
    "apre (snd (encode_header ?h (anew HEADER_SIZE 0))) HEADER_SIZE = fh_bytes ?h"
    using fh.encode_room [of "anew HEADER_SIZE 0" ?h] by (simp_all add: encode_header_def)
  have "send_parts env fd [fh_bytes ?h] c = Done (keep, c')"
    using assms enc by (cases "encode_header ?h (anew HEADER_SIZE 0)") (simp add: send_pong_def)
  from send_parts_spec [OF this] obtain resp rest tail where
    s: "c' = c\<lparr>co_log := co_log c @ resp @ tail\<rparr>" "\<forall>e \<in> set resp. writes_only fd e"
      "fh_bytes ?h = sent fd resp @ rest" "keep \<longleftrightarrow> rest = []" "keep \<longrightarrow> tail = []"
      "closed tail = (if keep \<or> fd < 0 then [] else [fd])"
    by auto
  have "decode_header (fh_bytes ?h) = Inr ?h" using decode_header_bytes [of ?h "[]"] by simp
  moreover have "length (fh_bytes ?h) = HEADER_SIZE + unat (fh_payload_len ?h)"
    by (simp add: HEADER_SIZE_def)
  ultimately have "frame_sent fd request_id Pong keep (resp @ tail)"
    unfolding frame_sent_def using s(2-6) by (metis frame_header.select_convs(2,3))
  with s(1) show ?thesis by auto
qed

text \<open>The requests that get an answer: those whose payload the handler can read.\<close>

definition answerable :: "frame_header \<Rightarrow> byte list \<Rightarrow> bool" where
  "answerable h payload =
     (let n = fh_payload_len h in
      case opcode_of (fh_opcode h) of
        Some Ping \<Rightarrow> True
      | Some Exec \<Rightarrow> exec_request n payload \<noteq> None
      | Some AstSymbols \<Rightarrow> symbols_request n payload \<noteq> None
      | Some AstSlice \<Rightarrow> slice_request n payload \<noteq> None
      | Some AstPatch \<Rightarrow> patch_request n payload \<noteq> None
      | Some CdpAction \<Rightarrow> cdp_request n payload \<noteq> None
      | Some ReadFile \<Rightarrow> file_read_request n payload \<noteq> None
      | Some WriteFile \<Rightarrow> file_write_request n payload \<noteq> None
      | _ \<Rightarrow> False)"

lemmas answer_frames = exec_h.answer_frame symbols_h.answer_frame slice_h.answer_frame
  patch_h.answer_frame cdp_h.answer_frame read_h.answer_frame write_h.answer_frame

lemmas answers_malformed = exec_h.answer_malformed symbols_h.answer_malformed slice_h.answer_malformed
  patch_h.answer_malformed cdp_h.answer_malformed read_h.answer_malformed write_h.answer_malformed

lemma dispatch_answered:
  assumes "dispatch_frame w fd h payload c = Done (keep, c')" and "answerable h payload"
  shows "\<exists>op work new. response_opcode (opcode_of (fh_opcode h)) = Some op \<and>
    co_log c' = co_log c @ work @ new \<and> frame_sent fd (fh_request_id h) op keep new"
proof (cases "opcode_of (fh_opcode h)")
  case None
  with assms show ?thesis by (simp add: answerable_def)
next
  case (Some op)
  then show ?thesis
  proof (cases op)
    case Ping
    with assms Some have "send_pong (w_env w) fd (fh_request_id h) c = Done (keep, c')"
      by (simp add: dispatch_frame_def)
    from pong_frame [OF this] show ?thesis using Some Ping by (auto intro: exI [of _ "[]"])
  qed (use assms Some in \<open>auto simp: dispatch_frame_def answerable_def simp del: not_None_eq
      dest!: answer_frames\<close>)
qed

lemma dispatch_ignored:
  assumes "\<not> answerable h payload"
  shows "dispatch_frame w fd h payload c =
    Done (True, if opcode_of (fh_opcode h) = Some Shutdown then c\<lparr>co_running := False\<rparr> else c)"
proof (cases "opcode_of (fh_opcode h)")
  case None
  then show ?thesis by (simp add: dispatch_frame_def)
next
  case (Some op)
  with assms show ?thesis
    by (cases op) (simp_all add: dispatch_frame_def answerable_def answers_malformed del: not_None_eq)
qed

lemma dispatch_grows:
  assumes "dispatch_frame w fd h payload c = Done (keep, c')"
  shows "\<exists>new. co_log c' = co_log c @ new"
proof (cases "answerable h payload")
  case True
  from dispatch_answered [OF assms this] show ?thesis by auto
next
  case False
  from dispatch_ignored [OF this, of w fd c] assms show ?thesis by auto
qed

end
