(* ===== verification/Server.thy ===== *)
theory Server
  imports Server_Contract
begin

text \<open>
  ApplianceServer (include/axiom/server.hpp): the client slots, the framing of the byte stream, the
  events of the reactor loop, start and stop, and the main function of the guest (src/main.cpp).
  The framing is specified on byte lists by \<open>serve\<close>; the loop over the receive buffer refines it.
\<close>

section \<open>State\<close>

definition MAX_CLIENTS :: nat where
  "MAX_CLIENTS = 4"

definition BUFFER_CAPACITY :: nat where
  "BUFFER_CAPACITY = 65536"

record slot =
  cl_fd :: int
  cl_rx :: "byte fvec"

definition slot_init :: slot where
  "slot_init = \<lparr>cl_fd = - 1, cl_rx = fv_new BUFFER_CAPACITY 0\<rparr>"

definition slot_reset :: "slot \<Rightarrow> log \<Rightarrow> slot \<times> log" where
  "slot_reset s log =
     (if cl_fd s \<ge> 0 then (\<lparr>cl_fd = - 1, cl_rx = fv_clear (cl_rx s)\<rparr>, sys_close (cl_fd s) log)
      else (s\<lparr>cl_rx := fv_clear (cl_rx s)\<rparr>, log))"

record server =
  sv_core :: core
  sv_listener :: int
  sv_signals :: int
  sv_clients :: "slot list"

definition server_new :: "log \<Rightarrow> server" where
  "server_new log =
     \<lparr>sv_core = \<lparr>co_reactor = - 1, co_running = False, co_runner = runner_init, co_bridge = bridge_init,
                 co_log = log\<rparr>,
      sv_listener = - 1, sv_signals = - 1, sv_clients = replicate MAX_CLIENTS slot_init\<rparr>"

section \<open>Framing\<close>

text \<open>The pair of calls that ends a connection: out of the reactor, then closed and cleared.\<close>

definition drop_slot :: "env \<Rightarrow> slot \<Rightarrow> core \<Rightarrow> slot \<times> core" where
  "drop_slot env s c =
     (let (s1, log) = slot_reset s (snd (reactor_remove env (co_reactor c) (cl_fd s) (co_log c)))
      in (s1, c\<lparr>co_log := log\<rparr>))"

text \<open>
  The end of one round of the loop: what follows the frame moves to the front, the rest is popped.
  The subtraction wraps when the slot was reset while the frame was dispatched.
\<close>

definition consume_frame :: "nat \<Rightarrow> byte fvec \<Rightarrow> byte fvec" where
  "consume_frame frame_len rx =
     (let remaining = (of_nat (fv_size rx) - of_nat frame_len :: u64);
          moved = (if remaining > 0 \<and> unat remaining \<le> BUFFER_CAPACITY
                   then rx\<lparr>fv_data := acopy (fv_data rx) 0 (drop frame_len (fv_as_span rx))\<rparr> else rx)
      in pop_times fv_pop_back (fv_size rx - unat remaining) moved)"

text \<open>dispatch_frame resets the slot of a client it could not answer.\<close>

definition after_dispatch :: "nat \<Rightarrow> bool \<Rightarrow> slot \<Rightarrow> slot" where
  "after_dispatch frame_len keep s =
     (let s1 = (if keep then s else fst (slot_reset s [])) in s1\<lparr>cl_rx := consume_frame frame_len (cl_rx s1)\<rparr>)"

lemma fv_size_pop_times: "fv_size (pop_times fv_pop_back n v) = fv_size v - n"
  by (induction n arbitrary: v) (simp_all add: fv_pop_back_def)

lemma unat_remaining: "n \<le> m \<Longrightarrow> unat (of_nat m - of_nat n :: u64) \<le> m - n"
  by (simp flip: of_nat_diff add: unat_of_nat)

lemma consume_frame_shorter:
  assumes "0 < frame_len" "frame_len \<le> fv_size rx"
  shows "fv_size (consume_frame frame_len rx) < fv_size rx"
proof -
  have "unat (of_nat (fv_size rx) - of_nat frame_len :: u64) < fv_size rx"
    using unat_remaining [OF assms(2)] assms by linarith
  moreover have "fv_size (consume_frame frame_len rx) = unat (of_nat (fv_size rx) - of_nat frame_len :: u64)"
    using calculation by (auto simp: consume_frame_def Let_def fv_size_pop_times)
  ultimately show ?thesis by simp
qed

lemma after_dispatch_shorter:
  assumes "0 < frame_len" "frame_len \<le> fv_size (cl_rx s)"
  shows "fv_size (cl_rx (after_dispatch frame_len keep s)) < fv_size (cl_rx s)"
  using assms consume_frame_shorter [OF assms]
  by (auto simp: after_dispatch_def slot_reset_def consume_frame_def Let_def fv_size_pop_times)

function process_client_frames :: "'n world \<Rightarrow> slot \<Rightarrow> core \<Rightarrow> (slot \<times> core) run" where
  "process_client_frames w s c =
     (if fv_size (cl_rx s) < HEADER_SIZE then Done (s, c)
      else case decode_header (fv_as_span (cl_rx s)) of
        Inl e \<Rightarrow> Done (drop_slot (w_env w) s c)
      | Inr h \<Rightarrow>
          if unat (fh_payload_len h) > BUFFER_CAPACITY - HEADER_SIZE then Done (drop_slot (w_env w) s c)
          else if fv_size (cl_rx s) < HEADER_SIZE + unat (fh_payload_len h) then Done (s, c)
          else run_bind
            (dispatch_frame w (cl_fd s) h
               (take (unat (fh_payload_len h)) (drop HEADER_SIZE (fv_as_span (cl_rx s)))) c)
            (\<lambda>(keep, c1). process_client_frames w
               (after_dispatch (HEADER_SIZE + unat (fh_payload_len h)) keep s) c1))"
  by pat_completeness auto
termination
  by (relation "measure (\<lambda>(w, s, c). fv_size (cl_rx s))")
    (auto simp: HEADER_SIZE_def intro!: after_dispatch_shorter)

declare process_client_frames.simps [simp del]

text \<open>The bytes of a read: pushed one by one, then the complete frames are served.\<close>

definition feed :: "'n world \<Rightarrow> byte list \<Rightarrow> slot \<Rightarrow> core \<Rightarrow> (slot \<times> core) run" where
  "feed w bytes s c =
     (case push_all fv_push_back (cl_rx s) bytes of
        (True, rx) \<Rightarrow> process_client_frames w (s\<lparr>cl_rx := rx\<rparr>) c
      | (False, rx) \<Rightarrow> Done (drop_slot (w_env w) (s\<lparr>cl_rx := rx\<rparr>) c))"

section \<open>Events\<close>

fun find_free_slot :: "slot list \<Rightarrow> nat option" where
  "find_free_slot [] = None"
| "find_free_slot (s # ss) = (if cl_fd s < 0 then Some 0 else map_option Suc (find_free_slot ss))"

fun find_slot_by_fd :: "int \<Rightarrow> slot list \<Rightarrow> nat option" where
  "find_slot_by_fd fd [] = None"
| "find_slot_by_fd fd (s # ss) = (if cl_fd s = fd then Some 0 else map_option Suc (find_slot_by_fd fd ss))"

definition set_slot :: "nat \<Rightarrow> slot \<times> core \<Rightarrow> server \<Rightarrow> server" where
  "set_slot i sc sv = sv\<lparr>sv_core := snd sc, sv_clients := (sv_clients sv)[i := fst sc]\<rparr>"

definition set_log :: "log \<Rightarrow> server \<Rightarrow> server" where
  "set_log log sv = sv\<lparr>sv_core := (sv_core sv)\<lparr>co_log := log\<rparr>\<rparr>"

definition handle_accept :: "env \<Rightarrow> server \<Rightarrow> server" where
  "handle_accept env sv =
     (let c = sv_core sv;
          fd = e_accept env (co_log c) (sv_listener sv);
          l1 = co_log c @ [EvAccept (sv_listener sv)]
      in if fd < 0 then set_log l1 sv
         else case find_free_slot (sv_clients sv) of
           None \<Rightarrow> set_log (sys_close fd l1) sv
         | Some i \<Rightarrow>
             (let s = \<lparr>cl_fd = fd, cl_rx = fv_clear (cl_rx (sv_clients sv ! i))\<rparr>
              in case reactor_add env (co_reactor c) fd (EPOLLIN OR EPOLLRDHUP) l1 of
                (Inr _, l2) \<Rightarrow> set_slot i (s, c\<lparr>co_log := l2\<rparr>) sv
              | (Inl e, l2) \<Rightarrow> (let (s1, l3) = slot_reset s l2 in set_slot i (s1, c\<lparr>co_log := l3\<rparr>) sv)))"

text \<open>Input of a known client; the flag is False when the handler returns at once.\<close>

definition receive :: "'n world \<Rightarrow> slot \<Rightarrow> core \<Rightarrow> (bool \<times> slot \<times> core) run" where
  "receive w s c =
     (case sys_read (w_env w) (cl_fd s) 4096 (co_log c) of
        (Ok bytes, log) \<Rightarrow>
          if bytes = [] then Done (False, drop_slot (w_env w) s (c\<lparr>co_log := log\<rparr>))
          else run_bind (feed w bytes s (c\<lparr>co_log := log\<rparr>))
            (\<lambda>sc. Done (fst (push_all fv_push_back (cl_rx s) bytes), sc))
      | (Err e, log) \<Rightarrow> Done (False, drop_slot (w_env w) s (c\<lparr>co_log := log\<rparr>)))"

definition hang_up :: u32 where
  "hang_up = EPOLLRDHUP OR EPOLLHUP OR EPOLLERR"

definition slot_event :: "'n world \<Rightarrow> u32 \<Rightarrow> slot \<Rightarrow> core \<Rightarrow> (slot \<times> core) run" where
  "slot_event w events s c =
     run_bind (if events AND EPOLLIN \<noteq> 0 then receive w s c else Done (True, s, c))
       (\<lambda>(go, s1, c1). Done (if go \<and> cl_fd s1 \<ge> 0 \<and> events AND hang_up \<noteq> 0
                             then drop_slot (w_env w) s1 c1 else (s1, c1)))"

definition handle_client_event :: "'n world \<Rightarrow> int \<Rightarrow> u32 \<Rightarrow> server \<Rightarrow> server run" where
  "handle_client_event w fd events sv =
     (case find_slot_by_fd fd (sv_clients sv) of
        None \<Rightarrow>
          (let c = sv_core sv
           in Done (set_log (sys_close fd (snd (reactor_remove (w_env w) (co_reactor c) fd (co_log c)))) sv))
      | Some i \<Rightarrow>
          run_bind (slot_event w events (sv_clients sv ! i) (sv_core sv)) (\<lambda>sc. Done (set_slot i sc sv)))"

section \<open>Signals\<close>

text \<open>
  Both loops of reap_children: children are waited for without blocking until there is none left.
\<close>

primrec reap_loop :: "env \<Rightarrow> event \<Rightarrow> nat \<Rightarrow> log \<Rightarrow> log run" where
  "reap_loop env call 0 log = Out_Of_Fuel"
| "reap_loop env call (Suc fuel) log =
     (if e_wait_any env log then reap_loop env call fuel (log @ [call]) else Done (log @ [call]))"

definition reap_children :: "env \<Rightarrow> log \<Rightarrow> log run" where
  "reap_children env log =
     run_bind (reap_loop env (EvProcess Call_Wait_Any) (e_fuel env) log)
       (reap_loop env (EvProcess (Call_Waitpid (- 1) True)) (e_fuel env))"

fun handle_entries :: "env \<Rightarrow> u32 list \<Rightarrow> server \<Rightarrow> server run" where
  "handle_entries env [] sv = Done sv"
| "handle_entries env (sig # sigs) sv =
     (if sig = SIGCHLD
      then run_bind (reap_children env (co_log (sv_core sv))) (\<lambda>log. handle_entries env sigs (set_log log sv))
      else if sig = SIGTERM \<or> sig = SIGINT
      then handle_entries env sigs (sv\<lparr>sv_core := (sv_core sv)\<lparr>co_running := False\<rparr>\<rparr>)
      else handle_entries env sigs sv)"

primrec signals_loop :: "env \<Rightarrow> nat \<Rightarrow> server \<Rightarrow> server run" where
  "signals_loop env 0 sv = Out_Of_Fuel"
| "signals_loop env (Suc fuel) sv =
     (case read_signals env (sv_signals sv) 16 (co_log (sv_core sv)) of
        (Inl e, log) \<Rightarrow> Done (set_log log sv)
      | (Inr sigs, log) \<Rightarrow>
          if sigs = [] then Done (set_log log sv)
          else run_bind (handle_entries env sigs (set_log log sv)) (signals_loop env fuel))"

definition handle_signals :: "env \<Rightarrow> server \<Rightarrow> server run" where
  "handle_signals env sv = signals_loop env (e_fuel env) sv"

section \<open>The reactor loop\<close>

definition handle_event :: "'n world \<Rightarrow> int \<times> u32 \<Rightarrow> server \<Rightarrow> server run" where
  "handle_event w ev sv =
     (if fst ev = sv_signals sv then handle_signals (w_env w) sv
      else if fst ev = sv_listener sv then Done (handle_accept (w_env w) sv)
      else handle_client_event w (fst ev) (snd ev) sv)"

fun handle_events :: "'n world \<Rightarrow> (int \<times> u32) list \<Rightarrow> server \<Rightarrow> server run" where
  "handle_events w [] sv = Done sv"
| "handle_events w (ev # evs) sv = run_bind (handle_event w ev sv) (handle_events w evs)"

fun drop_clients :: "env \<Rightarrow> slot list \<Rightarrow> core \<Rightarrow> slot list \<times> core" where
  "drop_clients env [] c = ([], c)"
| "drop_clients env (s # ss) c =
     (let (s1, c1) = (if cl_fd s \<ge> 0 then drop_slot env s c else (s, c));
          (ss1, c2) = drop_clients env ss c1
      in (s1 # ss1, c2))"

definition cleanup :: "env \<Rightarrow> server \<Rightarrow> server" where
  "cleanup env sv =
     (let (ss, c) = drop_clients env (sv_clients sv) (sv_core sv);
          (b, log) = bridge_stop (co_bridge c) (co_log c)
      in sv\<lparr>sv_core := c\<lparr>co_bridge := b, co_log := log\<rparr>, sv_clients := ss\<rparr>)"

definition server_stop :: "server \<Rightarrow> server" where
  "server_stop sv = sv\<lparr>sv_core := (sv_core sv)\<lparr>co_running := False\<rparr>\<rparr>"

text \<open>init: the descriptors are taken over, then registered; the parameter that is left is destroyed.\<close>

definition server_init :: "env \<Rightarrow> int \<Rightarrow> int \<Rightarrow> server \<Rightarrow> unit result \<times> server" where
  "server_init env listener signal_fd sv =
     (let c = sv_core sv in
      case reactor_create env (co_log c) of
        (Inl e, l1) \<Rightarrow> (Inl e, set_log (snd (signalfd_drop signal_fd l1)) sv)
      | (Inr ep, l1) \<Rightarrow>
          (let ((ep1, _), l2) = reactor_assign (co_reactor c) ep l1;
               ((sig1, _), l3) = signalfd_assign (sv_signals sv) signal_fd l2;
               sv1 = sv\<lparr>sv_core := c\<lparr>co_reactor := ep1\<rparr>, sv_listener := listener, sv_signals := sig1\<rparr>
           in case reactor_add env ep1 listener EPOLLIN l3 of
                (Inl e, l4) \<Rightarrow> (Inl e, set_log l4 sv1)
              | (Inr _, l4) \<Rightarrow>
                  (case reactor_add env ep1 sig1 EPOLLIN l4 of
                     (Inl e, l5) \<Rightarrow> (Inl e, set_log l5 sv1)
                   | (Inr _, l5) \<Rightarrow>
                       (Inr (), sv1\<lparr>sv_core := (sv_core sv1)\<lparr>co_running := True, co_log := l5\<rparr>\<rparr>))))"

primrec run_loop :: "'n world \<Rightarrow> nat \<Rightarrow> server \<Rightarrow> (unit result \<times> server) run" where
  "run_loop w 0 sv =
     (if co_running (sv_core sv) then Out_Of_Fuel else Done (Inr (), cleanup (w_env w) sv))"
| "run_loop w (Suc fuel) sv =
     (if \<not> co_running (sv_core sv) then Done (Inr (), cleanup (w_env w) sv)
      else case reactor_wait (w_env w) (co_reactor (sv_core sv)) 16 1000 (co_log (sv_core sv)) of
        (Inl e, log) \<Rightarrow> Done (Inl e, set_log log sv)
      | (Inr evs, log) \<Rightarrow> run_bind (handle_events w evs (set_log log sv)) (run_loop w fuel))"

definition server_run :: "'n world \<Rightarrow> server \<Rightarrow> (unit result \<times> server) run" where
  "server_run w sv = run_loop w (e_fuel (w_env w)) sv"

section \<open>The main function\<close>

definition say :: "string \<Rightarrow> log \<Rightarrow> log" where
  "say s log = log @ [EvBoot (Call_Print (''[axiom-initd] '' @ s @ [CHR 0x0A]))]"

text \<open>The members of the static server that own something, destroyed at exit in reverse order.\<close>

definition server_drop :: "server \<Rightarrow> log" where
  "server_drop sv =
     (let (b, l1) = bridge_stop (co_bridge (sv_core sv)) (co_log (sv_core sv));
          (sig, l2) = signalfd_drop (sv_signals sv) l1
      in snd (reactor_drop (co_reactor (sv_core sv)) l2))"

definition start_mounts :: "env \<Rightarrow> int \<Rightarrow> log \<Rightarrow> log" where
  "start_mounts env pid log =
     (if pid \<noteq> 1 then log
      else case mount_essential_filesystems env log of
        (Inl e, l1) \<Rightarrow> say (''Warning: Failed to mount filesystems: '' @ to_string_view e) l1
      | (Inr _, l1) \<Rightarrow> say ''Essential filesystems mounted successfully'' l1)"

text \<open>From the initialised server to the end; the log before the static server is destroyed.\<close>

definition serve_forever :: "'n world \<Rightarrow> int \<Rightarrow> int \<Rightarrow> server \<Rightarrow> (nat \<times> log) run" where
  "serve_forever w pid listener sv =
     run_bind (server_run w (set_log (say ''Entering steady-state reactor loop'' (co_log (sv_core sv))) sv))
       (\<lambda>(r, sv1).
          let l1 = (case r of Inl e \<Rightarrow> say (''Server reactor returned error: '' @ to_string_view e)
                                           (co_log (sv_core sv1))
                            | Inr _ \<Rightarrow> co_log (sv_core sv1));
              l2 = say ''Appliance runtime shutting down'' (sys_close listener l1);
              l3 = (if pid = 1 then l2 @ [EvBoot Call_Sync, EvBoot Call_Reboot] else l2)
          in Done (0, server_drop (set_log l3 sv1)))"

definition main :: "'n world \<Rightarrow> log \<Rightarrow> (nat \<times> log) run" where
  "main w log =
     (let env = w_env w;
          pid = e_getpid env log;
          l1 = say (''Starting AxiomVM guest appliance (PID: '' @ decimal (nat pid) @ '')'')
                 (log @ [EvBoot Call_Getpid]);
          l2 = start_mounts env pid l1
      in case signalfd_create env [17, 15, 2] l2 of
        (Inl e, l3) \<Rightarrow> Done (1, say (''Fatal: Failed to initialize signalfd: '' @ to_string_view e) l3)
      | (Inr sfd, l3) \<Rightarrow>
          (case create_listener env DEFAULT_GUEST_PORT VMADDR_CID_ANY DEFAULT_BACKLOG l3 of
             (Inl e, l4) \<Rightarrow>
               Done (1, snd (signalfd_drop sfd
                 (say (''Fatal: Failed to bind vsock listener on port '' @
                       decimal (unat DEFAULT_GUEST_PORT) @ '': '' @ to_string_view e) l4)))
           | (Inr lfd, l4) \<Rightarrow>
               (let l5 = say (''Virtio-vsock listener established on port '' @
                              decimal (unat DEFAULT_GUEST_PORT)) l4
                in case server_init env lfd sfd (server_new l5) of
                  (Inl e, sv) \<Rightarrow>
                    Done (1, server_drop (set_log (sys_close lfd
                      (say (''Fatal: Server initialization failed: '' @ to_string_view e)
                        (co_log (sv_core sv)))) sv))
                | (Inr _, sv) \<Rightarrow> serve_forever w pid lfd sv)))"

end
