(* ===== verification/Server_Correct.thy ===== *)
theory Server_Correct
  imports Server
begin

text \<open>
  The correctness of the server: the framing loop against its specification on byte streams, the
  independence of the chunks in which a stream arrives, the invariant of the slots over every
  reachable state, and what stop and exit leave open.
\<close>

section \<open>The frames of a byte stream\<close>

text \<open>What the bytes of a client begin with: not yet a frame, no frame, or a frame with its header.\<close>

datatype front = Wait | Reject | Frame frame_header

definition frame_len :: "frame_header \<Rightarrow> nat" where
  "frame_len h = HEADER_SIZE + unat (fh_payload_len h)"

definition front_of :: "byte list \<Rightarrow> front" where
  "front_of bs =
     (if length bs < HEADER_SIZE then Wait
      else case decode_header bs of
        Inl e \<Rightarrow> Reject
      | Inr h \<Rightarrow> if frame_len h > BUFFER_CAPACITY then Reject else if length bs < frame_len h then Wait
                else Frame h)"

lemma front_of_FrameD: "front_of bs = Frame h \<Longrightarrow> 0 < frame_len h \<and> frame_len h \<le> length bs"
  by (auto simp: front_of_def frame_len_def HEADER_SIZE_def split: if_splits sum.splits)

lemma front_of_append: "front_of a \<noteq> Wait \<Longrightarrow> front_of (a @ b) = front_of a"
  by (auto simp: front_of_def decode_header_append split: if_splits sum.splits)

text \<open>All complete frames with their payloads, and what is left; None after a rejected front.\<close>

function parse_frames :: "byte list \<Rightarrow> (frame_header \<times> byte list) list \<times> byte list option" where
  "parse_frames bs =
     (case front_of bs of
        Wait \<Rightarrow> ([], Some bs)
      | Reject \<Rightarrow> ([], None)
      | Frame h \<Rightarrow>
          (let (fs, rest) = parse_frames (drop (frame_len h) bs)
           in ((h, take (unat (fh_payload_len h)) (drop HEADER_SIZE bs)) # fs, rest)))"
  by pat_completeness auto
termination
  by (relation "measure length") (auto dest!: front_of_FrameD)

declare parse_frames.simps [simp del]

text \<open>Requests in order, until one could not be answered.\<close>

fun serve_frames :: "'n world \<Rightarrow> int \<Rightarrow> (frame_header \<times> byte list) list \<Rightarrow> core \<Rightarrow> (bool \<times> core) run" where
  "serve_frames w fd [] c = Done (True, c)"
| "serve_frames w fd ((h, payload) # fs) c =
     run_bind (dispatch_frame w fd h payload c)
       (\<lambda>(keep, c1). if keep then serve_frames w fd fs c1 else Done (False, c1))"

definition serve :: "'n world \<Rightarrow> int \<Rightarrow> byte list \<Rightarrow> core \<Rightarrow> ((int \<times> byte list) \<times> core) run" where
  "serve w fd bs c =
     (let (fs, rest) = parse_frames bs in
      run_bind (serve_frames w fd fs c) (\<lambda>(keep, c1).
        Done (if \<not> keep then ((- 1, []), c1)
              else case rest of Some r \<Rightarrow> ((fd, r), c1) | None \<Rightarrow> ((- 1, []), drop_client (w_env w) fd c1))))"

lemma serve_front:
  "serve w fd bs c =
     (case front_of bs of
        Wait \<Rightarrow> Done ((fd, bs), c)
      | Reject \<Rightarrow> Done ((- 1, []), drop_client (w_env w) fd c)
      | Frame h \<Rightarrow>
          run_bind (dispatch_frame w fd h (take (unat (fh_payload_len h)) (drop HEADER_SIZE bs)) c)
            (\<lambda>(keep, c1). if keep then serve w fd (drop (frame_len h) bs) c1 else Done ((- 1, []), c1)))"
  unfolding serve_def
  by (subst parse_frames.simps)
    (auto split: front.splits prod.splits simp: run_bind_assoc Let_def intro!: run_bind_cong)

section \<open>The loop refines the specification\<close>

definition slot_view :: "slot \<Rightarrow> int \<times> byte list" where
  "slot_view s = (cl_fd s, fv_as_span (cl_rx s))"

definition slot_fits :: "slot \<Rightarrow> bool" where
  "slot_fits s \<longleftrightarrow> fv_wf (cl_rx s) \<and> fv_capacity (cl_rx s) = BUFFER_CAPACITY"

lemma drop_slot_eq:
  "cl_fd s \<ge> 0 \<Longrightarrow>
   drop_slot env s c = (\<lparr>cl_fd = - 1, cl_rx = fv_clear (cl_rx s)\<rparr>, drop_client env (cl_fd s) c)"
  by (simp add: drop_slot_def drop_client_def slot_reset_def Let_def)

lemma consume_frame_span:
  assumes "fv_wf rx" "fv_capacity rx = BUFFER_CAPACITY" "n \<le> fv_size rx"
  shows "fv_as_span (consume_frame n rx) = drop n (fv_as_span rx) \<and> fv_wf (consume_frame n rx) \<and>
    fv_capacity (consume_frame n rx) = BUFFER_CAPACITY"
proof -
  have small: "fv_size rx \<le> 65536" using assms by (simp add: fv_wf_def BUFFER_CAPACITY_def)
  then have rem: "unat (of_nat (fv_size rx) - of_nat n :: u64) = fv_size rx - n"
    using assms(3) by (simp flip: of_nat_diff add: unat_of_nat)
  then have pos: "(0 < (of_nat (fv_size rx) - of_nat n :: u64)) \<longleftrightarrow> n < fv_size rx"
    by (metis unat_gt_0 word_neq_0_conv zero_less_diff)
  have le: "fv_size rx - n \<le> BUFFER_CAPACITY" using small by (simp add: BUFFER_CAPACITY_def)
  let ?m = "rx\<lparr>fv_data := acopy (fv_data rx) 0 (drop n (fv_as_span rx))\<rparr>"
  have m: "fv_wf ?m" "fv_capacity ?m = BUFFER_CAPACITY" "fv_size ?m = fv_size rx"
    using assms by (simp_all add: fv_wf_def fv_capacity_def)
  have c: "consume_frame n rx = pop_times fv_pop_back n (if n < fv_size rx then ?m else rx)"
    using assms(3) le by (simp add: consume_frame_def rem pos Let_def)
  show ?thesis
  proof (cases "n < fv_size rx")
    case True
    have "take (fv_size rx - n) (fv_as_span ?m) = apre (acopy (fv_data rx) 0 (drop n (fv_as_span rx))) (fv_size rx - n)"
      by (simp add: fv_as_span_def take_apre min_def)
    also have "\<dots> = drop n (fv_as_span rx)"
      using apre_acopy_0 [of "fv_data rx" "drop n (fv_as_span rx)"] by simp
    finally show ?thesis
      using c True m fv.pop_times_items [OF m(1), of n] fv.wf_pop_times [OF m(1), of n]
        fv.room_pop_times [of n ?m] by simp
  next
    case False
    then show ?thesis
      using c assms fv.pop_times_items [OF assms(1), of n] fv.wf_pop_times [OF assms(1), of n]
        fv.room_pop_times [of n rx] by simp
  qed
qed

lemma process_front:
  "process_client_frames w s c =
     (case front_of (fv_as_span (cl_rx s)) of
        Wait \<Rightarrow> Done (s, c)
      | Reject \<Rightarrow> Done (drop_slot (w_env w) s c)
      | Frame h \<Rightarrow>
          run_bind (dispatch_frame w (cl_fd s) h
              (take (unat (fh_payload_len h)) (drop HEADER_SIZE (fv_as_span (cl_rx s)))) c)
            (\<lambda>(keep, c1). process_client_frames w (after_dispatch (frame_len h) keep s) c1))"
  by (subst process_client_frames.simps)
    (auto simp: front_of_def frame_len_def BUFFER_CAPACITY_def HEADER_SIZE_def split: sum.splits)

lemma after_dispatch_keep:
  assumes "slot_fits s" "n \<le> fv_size (cl_rx s)"
  shows "slot_view (after_dispatch n True s) = (cl_fd s, drop n (fv_as_span (cl_rx s)))"
    and "slot_fits (after_dispatch n True s)"
  using assms consume_frame_span [of "cl_rx s" n]
  by (simp_all add: after_dispatch_def slot_view_def slot_fits_def)

text \<open>After a reset there is nothing to move or to pop, whatever the wrapped difference is.\<close>

lemma consume_frame_empty:
  assumes "fv_capacity rx = BUFFER_CAPACITY" "fv_size rx = 0"
  shows "fv_size (consume_frame n rx) = 0 \<and> fv_capacity (consume_frame n rx) = BUFFER_CAPACITY"
  using assms fv.room_pop_times [of 0] by (auto simp: consume_frame_def Let_def fv_capacity_def)

lemma after_dispatch_drop:
  assumes "slot_fits s" "cl_fd s \<ge> 0"
  shows "slot_view (after_dispatch n False s) = (- 1, [])" and "slot_fits (after_dispatch n False s)"
proof -
  let ?rx = "fv_clear (cl_rx s)"
  have "fv_size (consume_frame n ?rx) = 0 \<and> fv_capacity (consume_frame n ?rx) = BUFFER_CAPACITY"
    using assms by (intro consume_frame_empty) (simp_all add: slot_fits_def)
  then show "slot_view (after_dispatch n False s) = (- 1, [])" "slot_fits (after_dispatch n False s)"
    using assms(2) by (simp_all add: after_dispatch_def slot_view_def slot_fits_def slot_reset_def fv_wf_def
        fv_as_span_def)
qed

lemma process_stop: "fv_size (cl_rx s) = 0 \<Longrightarrow> process_client_frames w s c = Done (s, c)"
  by (subst process_client_frames.simps) (simp add: HEADER_SIZE_def)

definition slot_core_view :: "slot \<times> core \<Rightarrow> (int \<times> byte list) \<times> core" where
  "slot_core_view sc = (slot_view (fst sc), snd sc)"

lemma slot_core_view_pair [simp]: "slot_core_view (s, c) = ((cl_fd s, fv_as_span (cl_rx s)), c)"
  by (simp add: slot_core_view_def slot_view_def)

lemma process_refines:
  "slot_fits s \<Longrightarrow> cl_fd s \<ge> 0 \<Longrightarrow>
   run_map slot_core_view (process_client_frames w s c) = serve w (cl_fd s) (fv_as_span (cl_rx s)) c"
proof (induction "fv_size (cl_rx s)" arbitrary: s c rule: less_induct)
  case less
  let ?bs = "fv_as_span (cl_rx s)"
  show ?case
  proof (cases "front_of ?bs")
    case Wait
    then show ?thesis
      by (subst process_front, subst serve_front) (simp add: slot_core_view_def slot_view_def)
  next
    case Reject
    with less.prems show ?thesis
      by (subst process_front, subst serve_front) (simp add: slot_core_view_def slot_view_def drop_slot_eq)
  next
    case (Frame h)
    have n: "0 < frame_len h" "frame_len h \<le> fv_size (cl_rx s)"
      using front_of_FrameD [OF Frame] by simp_all
    have "run_map slot_core_view (process_client_frames w (after_dispatch (frame_len h) keep s) c1)
        = (if keep then serve w (cl_fd s) (drop (frame_len h) ?bs) c1 else Done ((- 1, []), c1))" for keep c1
    proof (cases keep)
      case True
      have v: "cl_fd (after_dispatch (frame_len h) True s) = cl_fd s"
        "fv_as_span (cl_rx (after_dispatch (frame_len h) True s)) = drop (frame_len h) ?bs"
        using after_dispatch_keep(1) [OF less.prems(1) n(2)] by (simp_all add: slot_view_def)
      have "run_map slot_core_view (process_client_frames w (after_dispatch (frame_len h) True s) c1)
          = serve w (cl_fd s) (drop (frame_len h) ?bs) c1"
        using less.hyps [of "after_dispatch (frame_len h) True s"] after_dispatch_shorter [OF n, of True]
          after_dispatch_keep(2) [OF less.prems(1) n(2)] less.prems(2) v by simp
      with True show ?thesis by simp
    next
      case False
      have d: "slot_view (after_dispatch (frame_len h) False s) = (- 1, [])"
        by (rule after_dispatch_drop(1) [OF less.prems])
      then have "fv_size (cl_rx (after_dispatch (frame_len h) False s)) = 0"
        by (metis length_fv_as_span list.size(3) prod.inject slot_view_def)
      with False d show ?thesis by (simp add: process_stop slot_core_view_def)
    qed
    with Frame show ?thesis
      by (subst process_front, subst serve_front)
        (auto simp: run_map_bind intro!: run_bind_cong split: prod.splits)
  qed
qed

section \<open>Chunks\<close>

lemma serve_append:
  "fd \<ge> 0 \<Longrightarrow>
   serve w fd (a @ b) c = run_bind (serve w fd a c)
     (\<lambda>((fd', rest), c1). if fd' < 0 then Done ((fd', rest), c1) else serve w fd' (rest @ b) c1)"
proof (induction "length a" arbitrary: a c rule: less_induct)
  case less
  show ?case
  proof (cases "front_of a")
    case Wait
    with less.prems show ?thesis by (subst (2) serve_front) simp
  next
    case Reject
    then have "front_of (a @ b) = Reject" by (simp add: front_of_append)
    with Reject show ?thesis by (subst (1 2) serve_front) simp
  next
    case (Frame h)
    then have f: "front_of (a @ b) = Frame h" by (simp add: front_of_append)
    have n: "0 < frame_len h" "frame_len h \<le> length a" using front_of_FrameD [OF Frame] by simp_all
    then have "take (unat (fh_payload_len h)) (drop HEADER_SIZE (a @ b))
        = take (unat (fh_payload_len h)) (drop HEADER_SIZE a)"
      and "drop (frame_len h) (a @ b) = drop (frame_len h) a @ b"
      by (simp_all add: frame_len_def)
    moreover have "serve w fd (drop (frame_len h) a @ b) c1 = run_bind (serve w fd (drop (frame_len h) a) c1)
       (\<lambda>((fd', rest), c2). if fd' < 0 then Done ((fd', rest), c2) else serve w fd' (rest @ b) c2)" for c1
      using less.hyps [of "drop (frame_len h) a" c1] n less.prems by simp
    ultimately show ?thesis
      by (subst (1 2) serve_front)
        (auto simp: Frame f run_bind_assoc intro!: run_bind_cong split: prod.splits)
  qed
qed

lemma push_all_room:
  assumes "slot_fits s" "fv_size (cl_rx s) + length bytes \<le> BUFFER_CAPACITY"
  obtains rx where "push_all fv_push_back (cl_rx s) bytes = (True, rx)"
    "slot_fits (s\<lparr>cl_rx := rx\<rparr>)" "fv_as_span rx = fv_as_span (cl_rx s) @ bytes"
proof -
  have wf: "fv_wf (cl_rx s)" and cap: "fv_capacity (cl_rx s) = BUFFER_CAPACITY"
    using assms(1) by (simp_all add: slot_fits_def)
  obtain ok rx where p: "push_all fv_push_back (cl_rx s) bytes = (ok, rx)"
    by (cases "push_all fv_push_back (cl_rx s) bytes")
  show thesis
    using that fv.push_all_fits [OF wf, of bytes] fv.wf_push_all [OF wf, of bytes]
      fv.room_push_all [of "cl_rx s" bytes] p assms cap
    by (simp add: slot_fits_def)
qed

lemma feed_refines:
  assumes "slot_fits s" "cl_fd s \<ge> 0" "fv_size (cl_rx s) + length bytes \<le> BUFFER_CAPACITY"
  shows "run_map slot_core_view (feed w bytes s c) = serve w (cl_fd s) (fv_as_span (cl_rx s) @ bytes) c"
proof -
  obtain rx where "push_all fv_push_back (cl_rx s) bytes = (True, rx)"
    "slot_fits (s\<lparr>cl_rx := rx\<rparr>)" "fv_as_span rx = fv_as_span (cl_rx s) @ bytes"
    using push_all_room [OF assms(1,3)] .
  then show ?thesis
    using process_refines [of "s\<lparr>cl_rx := rx\<rparr>" w c] assms(2) by (simp add: feed_def)
qed

lemma feed_overflow:
  assumes "slot_fits s" "cl_fd s \<ge> 0" "BUFFER_CAPACITY < fv_size (cl_rx s) + length bytes"
  shows "run_map slot_core_view (feed w bytes s c) = Done ((- 1, []), drop_client (w_env w) (cl_fd s) c)"
proof -
  obtain ok rx where p: "push_all fv_push_back (cl_rx s) bytes = (ok, rx)"
    by (cases "push_all fv_push_back (cl_rx s) bytes")
  then have "\<not> ok"
    using fv.push_all_overflow [of "cl_rx s" bytes] assms by (simp add: slot_fits_def)
  with p assms(2) show ?thesis
    by (simp add: feed_def drop_slot_eq slot_core_view_def slot_view_def)
qed

text \<open>What the slots keep between events.\<close>

definition slot_ok :: "slot \<Rightarrow> bool" where
  "slot_ok s \<longleftrightarrow> slot_fits s \<and> front_of (fv_as_span (cl_rx s)) = Wait \<and>
     (cl_fd s \<ge> 0 \<or> slot_view s = (- 1, []))"

lemma front_of_Nil [simp]: "front_of [] = Wait"
  by (simp add: front_of_def HEADER_SIZE_def)

lemma slot_ok_closed: "slot_fits s \<Longrightarrow> slot_view s = (- 1, []) \<Longrightarrow> slot_ok s"
  by (simp add: slot_ok_def slot_view_def)

lemma drop_slot_ok:
  assumes "slot_fits s" "cl_fd s \<ge> 0" "drop_slot env s c = (s', c')"
  shows "slot_ok s' \<and> slot_view s' = (- 1, [])"
  using assms by (auto simp: drop_slot_eq slot_ok_def slot_view_def slot_fits_def)

lemma process_keeps:
  "slot_fits s \<Longrightarrow> cl_fd s \<ge> 0 \<Longrightarrow> process_client_frames w s c = Done (s', c') \<Longrightarrow>
   slot_ok s' \<and> (cl_fd s' = cl_fd s \<or> slot_view s' = (- 1, []))"
proof (induction "fv_size (cl_rx s)" arbitrary: s c rule: less_induct)
  case less
  show ?case
  proof (cases "front_of (fv_as_span (cl_rx s))")
    case Wait
    with less.prems show ?thesis
      by (subst (asm) process_front) (auto simp: slot_ok_def)
  next
    case Reject
    with less.prems drop_slot_ok [of s "w_env w" c s' c'] show ?thesis
      by (subst (asm) process_front) auto
  next
    case (Frame h)
    have n: "0 < frame_len h" "frame_len h \<le> fv_size (cl_rx s)"
      using front_of_FrameD [OF Frame] by simp_all
    obtain keep c1 where p: "process_client_frames w (after_dispatch (frame_len h) keep s) c1 = Done (s', c')"
      using less.prems Frame by (subst (asm) process_front) (auto simp: run_bind_Done)
    show ?thesis
    proof (cases keep)
      case True
      have "cl_fd (after_dispatch (frame_len h) True s) = cl_fd s"
        using after_dispatch_keep(1) [OF less.prems(1) n(2)] by (simp add: slot_view_def)
      with less.hyps [OF after_dispatch_shorter [OF n] after_dispatch_keep(2) [OF less.prems(1) n(2)]]
        less.prems(2) p True show ?thesis by simp
    next
      case False
      have d: "slot_view (after_dispatch (frame_len h) False s) = (- 1, [])"
        "slot_fits (after_dispatch (frame_len h) False s)"
        by (rule after_dispatch_drop [OF less.prems(1,2)])+
      then have "fv_size (cl_rx (after_dispatch (frame_len h) False s)) = 0"
        by (metis length_fv_as_span list.size(3) prod.inject slot_view_def)
      with p False d show ?thesis by (auto simp: process_stop intro: slot_ok_closed)
    qed
  qed
qed

lemma feed_keeps:
  assumes "slot_fits s" "cl_fd s \<ge> 0" "feed w bytes s c = Done (s', c')"
  shows "slot_ok s' \<and> (cl_fd s' = cl_fd s \<or> slot_view s' = (- 1, []))"
proof -
  obtain ok rx where p: "push_all fv_push_back (cl_rx s) bytes = (ok, rx)"
    by (cases "push_all fv_push_back (cl_rx s) bytes")
  then have f: "slot_fits (s\<lparr>cl_rx := rx\<rparr>)"
    using assms(1) fv.wf_push_all [of "cl_rx s" bytes] fv.room_push_all [of "cl_rx s" bytes]
    by (simp add: slot_fits_def)
  show ?thesis
    using assms p process_keeps [OF f] drop_slot_ok [OF f] by (cases ok) (auto simp: feed_def)
qed

text \<open>A stream that arrives in chunks; nothing more is read from a client that was dropped.\<close>

fun feed_chunks :: "'n world \<Rightarrow> byte list list \<Rightarrow> slot \<Rightarrow> core \<Rightarrow> (slot \<times> core) run" where
  "feed_chunks w [] s c = Done (s, c)"
| "feed_chunks w (chunk # chunks) s c =
     run_bind (feed w chunk s c)
       (\<lambda>(s1, c1). if cl_fd s1 < 0 then Done (s1, c1) else feed_chunks w chunks s1 c1)"

lemma serve_wait: "front_of bs = Wait \<Longrightarrow> serve w fd bs c = Done ((fd, bs), c)"
  by (subst serve_front) simp

lemma serve_short:
  "serve w fd bs c = Done ((fd', rest), c') \<Longrightarrow> fd \<ge> 0 \<Longrightarrow> length rest \<le> length bs"
proof (induction "length bs" arbitrary: bs c rule: less_induct)
  case less
  show ?case
  proof (cases "front_of bs")
    case (Frame h)
    with less.prems front_of_FrameD [OF Frame] less.hyps [of "drop (frame_len h) bs"] show ?thesis
      by (subst (asm) serve_front) (fastforce simp: run_bind_Done split: if_splits)
  qed (use less.prems in \<open>subst (asm) serve_front, auto\<close>)+
qed

lemma feed_chunks_refines:
  "slot_ok s \<Longrightarrow> cl_fd s \<ge> 0 \<Longrightarrow> fv_size (cl_rx s) + length (concat chunks) \<le> BUFFER_CAPACITY \<Longrightarrow>
   run_map slot_core_view (feed_chunks w chunks s c)
     = serve w (cl_fd s) (fv_as_span (cl_rx s) @ concat chunks) c"
proof (induction chunks arbitrary: s c)
  case Nil
  then show ?case by (simp add: serve_wait slot_ok_def slot_core_view_def slot_view_def)
next
  case (Cons chunk chunks)
  let ?bs = "fv_as_span (cl_rx s) @ chunk"
  have fits: "slot_fits s" using Cons.prems by (simp add: slot_ok_def)
  have r: "run_map slot_core_view (feed w chunk s c) = serve w (cl_fd s) ?bs c"
    using Cons.prems fits by (intro feed_refines) simp_all
  have step: "run_map slot_core_view (if cl_fd s1 < 0 then Done (s1, c1) else feed_chunks w chunks s1 c1)
      = (case slot_core_view (s1, c1) of ((fd', rest), c2) \<Rightarrow>
           if fd' < 0 then Done ((fd', rest), c2) else serve w fd' (rest @ concat chunks) c2)"
    if f: "feed w chunk s c = Done (s1, c1)" for s1 c1
  proof (cases "cl_fd s1 < 0")
    case True
    then show ?thesis by (simp add: slot_core_view_def slot_view_def)
  next
    case False
    have "slot_ok s1" using feed_keeps [OF fits Cons.prems(2) f] by simp
    moreover have "fv_size (cl_rx s1) \<le> length ?bs"
      using serve_short [of w "cl_fd s" ?bs c "cl_fd s1" "fv_as_span (cl_rx s1)" c1] r f Cons.prems(2)
      by simp
    ultimately show ?thesis
      using False Cons.IH [of s1 c1] Cons.prems(3) by simp
  qed
  have "serve w (cl_fd s) (?bs @ concat chunks) c = run_bind (serve w (cl_fd s) ?bs c)
       (\<lambda>((fd', rest), c1). if fd' < 0 then Done ((fd', rest), c1) else serve w fd' (rest @ concat chunks) c1)"
    by (rule serve_append [OF Cons.prems(2)])
  then show ?case
    using step by (cases "feed w chunk s c") (auto simp: r [symmetric] run_bind_map split: prod.splits)
qed

section \<open>Events of a client\<close>

text \<open>
  One event on the bytes of a client: a read that fails, ends the stream or does not fit drops the
  client; otherwise the frames are served, and a hang-up drops the client after that.
\<close>

definition serve_event ::
  "'n world \<Rightarrow> u32 \<Rightarrow> int \<Rightarrow> byte list \<Rightarrow> core \<Rightarrow> ((int \<times> byte list) \<times> core) run" where
  "serve_event w flags fd bs c =
     run_bind
       (if flags AND EPOLLIN = 0 then Done ((fd, bs), c)
        else case sys_read (w_env w) fd 4096 (co_log c) of
          (Err e, log) \<Rightarrow> Done ((- 1, []), drop_client (w_env w) fd (c\<lparr>co_log := log\<rparr>))
        | (Ok chunk, log) \<Rightarrow>
            if chunk \<noteq> [] \<and> length bs + length chunk \<le> BUFFER_CAPACITY
            then serve w fd (bs @ chunk) (c\<lparr>co_log := log\<rparr>)
            else Done ((- 1, []), drop_client (w_env w) fd (c\<lparr>co_log := log\<rparr>)))
       (\<lambda>((fd', rest), c1).
          Done (if fd' \<ge> 0 \<and> flags AND hang_up \<noteq> 0 then ((- 1, []), drop_client (w_env w) fd' c1)
                else ((fd', rest), c1)))"

lemma receive_refines:
  assumes "slot_fits s" "cl_fd s \<ge> 0"
  shows "run_map (slot_core_view \<circ> snd) (receive w s c) =
    (case sys_read (w_env w) (cl_fd s) 4096 (co_log c) of
       (Err e, log) \<Rightarrow> Done ((- 1, []), drop_client (w_env w) (cl_fd s) (c\<lparr>co_log := log\<rparr>))
     | (Ok chunk, log) \<Rightarrow>
         if chunk \<noteq> [] \<and> length (fv_as_span (cl_rx s)) + length chunk \<le> BUFFER_CAPACITY
         then serve w (cl_fd s) (fv_as_span (cl_rx s) @ chunk) (c\<lparr>co_log := log\<rparr>)
         else Done ((- 1, []), drop_client (w_env w) (cl_fd s) (c\<lparr>co_log := log\<rparr>)))"
proof (cases "sys_read (w_env w) (cl_fd s) 4096 (co_log c)")
  case (Pair r log)
  show ?thesis
  proof (cases r)
    case (Err e)
    with Pair assms show ?thesis by (simp add: receive_def drop_slot_eq)
  next
    case (Ok chunk)
    let ?c = "c\<lparr>co_log := log\<rparr>"
    have m: "run_map (slot_core_view \<circ> snd) (run_bind (feed w chunk s ?c) (\<lambda>sc. Done (ok, sc)))
        = run_map slot_core_view (feed w chunk s ?c)" for ok
      by (cases "feed w chunk s ?c") simp_all
    show ?thesis
    proof (cases "chunk = []")
      case True
      with Pair Ok assms show ?thesis by (simp add: receive_def drop_slot_eq)
    next
      case False
      with Pair Ok feed_refines [OF assms, of chunk w ?c] feed_overflow [OF assms, of chunk w ?c]
      show ?thesis by (simp add: receive_def m not_le [symmetric])
    qed
  qed
qed

text \<open>The flag of \<open>receive\<close> only says so when the client is gone already.\<close>

lemma receive_flag:
  assumes "slot_fits s" "cl_fd s \<ge> 0" "receive w s c = Done (go, s', c')"
  shows "slot_ok s' \<and> (cl_fd s' = cl_fd s \<or> slot_view s' = (- 1, [])) \<and> (go \<or> cl_fd s' < 0)"
proof (cases "sys_read (w_env w) (cl_fd s) 4096 (co_log c)")
  case (Pair r log)
  let ?c = "c\<lparr>co_log := log\<rparr>"
  have d: ?thesis if "drop_slot (w_env w) s ?c = (s', c')"
    using drop_slot_ok [OF assms(1,2) that] by (simp add: slot_view_def)
  show ?thesis
  proof (cases r)
    case (Err e)
    with Pair assms have "drop_slot (w_env w) s ?c = (s', c')" by (simp add: receive_def)
    then show ?thesis by (rule d)
  next
    case (Ok chunk)
    show ?thesis
    proof (cases "chunk = []")
      case True
      with Pair Ok assms have "drop_slot (w_env w) s ?c = (s', c')" by (simp add: receive_def)
      then show ?thesis by (rule d)
    next
      case False
      then have f: "feed w chunk s ?c = Done (s', c')" and go: "go = fst (push_all fv_push_back (cl_rx s) chunk)"
        using Pair Ok assms(3) by (auto simp: receive_def run_bind_Done)
      have "go \<or> cl_fd s' < 0"
      proof (cases "fv_size (cl_rx s) + length chunk \<le> BUFFER_CAPACITY")
        case True
        then show ?thesis
          using go assms(1) fv.push_all_fits [of "cl_rx s" chunk] by (simp add: slot_fits_def)
      next
        case False
        then show ?thesis using feed_overflow [OF assms(1,2), of chunk w ?c] f by simp
      qed
      with feed_keeps [OF assms(1,2) f] show ?thesis by simp
    qed
  qed
qed

lemma slot_event_refines:
  assumes "slot_ok s" "cl_fd s \<ge> 0"
  shows "run_map slot_core_view (slot_event w flags s c)
    = serve_event w flags (cl_fd s) (fv_as_span (cl_rx s)) c"
proof -
  have fits: "slot_fits s" using assms(1) by (simp add: slot_ok_def)
  let ?last = "\<lambda>((fd', rest), c1). Done (if fd' \<ge> 0 \<and> flags AND hang_up \<noteq> 0
      then ((- 1 :: int, [] :: byte list), drop_client (w_env w) fd' c1) else ((fd', rest), c1))"
  have fin: "run_map slot_core_view (Done (if go \<and> cl_fd s1 \<ge> 0 \<and> flags AND hang_up \<noteq> 0
        then drop_slot (w_env w) s1 c1 else (s1, c1))) = ?last (slot_core_view (s1, c1))"
    if "go \<or> cl_fd s1 < 0" for go s1 c1
    using that by (auto simp: drop_slot_eq)
  show ?thesis
  proof (cases "flags AND EPOLLIN = 0")
    case True
    with fin [of True s c] show ?thesis by (simp add: slot_event_def serve_event_def)
  next
    case False
    have "run_map slot_core_view (slot_event w flags s c)
        = run_bind (run_map (slot_core_view \<circ> snd) (receive w s c)) ?last"
      unfolding run_bind_map slot_event_def run_map_bind
      using False fin receive_flag [OF fits assms(2), of w c]
      by (auto intro!: run_bind_cong split: prod.splits)
    also have "\<dots> = serve_event w flags (cl_fd s) (fv_as_span (cl_rx s)) c"
      unfolding receive_refines [OF fits assms(2)] serve_event_def using False by simp
    finally show ?thesis .
  qed
qed

lemma slot_event_keeps:
  assumes "slot_ok s" "cl_fd s \<ge> 0" "slot_event w flags s c = Done (s', c')"
  shows "slot_ok s' \<and> (cl_fd s' = cl_fd s \<or> slot_view s' = (- 1, []))"
proof -
  have fits: "slot_fits s" using assms(1) by (simp add: slot_ok_def)
  obtain go s1 c1 where r: "(if flags AND EPOLLIN \<noteq> 0 then receive w s c else Done (True, s, c)) = Done (go, s1, c1)"
    and e: "(s', c') = (if go \<and> cl_fd s1 \<ge> 0 \<and> flags AND hang_up \<noteq> 0 then drop_slot (w_env w) s1 c1 else (s1, c1))"
    using assms(3) by (auto simp: slot_event_def run_bind_Done)
  have s1: "slot_ok s1" "cl_fd s1 = cl_fd s \<or> slot_view s1 = (- 1, [])"
    using r assms(1) receive_flag [OF fits assms(2), of w c go s1 c1] by (auto split: if_splits)
  then show ?thesis
    using e drop_slot_ok [of s1 "w_env w" c1 s' c'] by (auto simp: slot_ok_def split: if_splits)
qed

end
