(* ===== verification/Server_Safety.thy ===== *)
theory Server_Safety
  imports Server_Correct
begin

text \<open>
  The server over time: what no event changes, the invariant of the reachable states, how a run
  ends, and what the main function closes.
\<close>

section \<open>What a request leaves alone\<close>

definition core_evolves :: "core \<Rightarrow> core \<Rightarrow> bool" where
  "core_evolves c c' \<longleftrightarrow> co_reactor c' = co_reactor c \<and> (co_running c' \<longrightarrow> co_running c) \<and>
     (\<exists>new. co_log c' = co_log c @ new)"

lemma core_evolves_refl [simp]: "core_evolves c c"
  by (simp add: core_evolves_def)

lemma core_evolves_trans [trans]: "core_evolves a b \<Longrightarrow> core_evolves b c \<Longrightarrow> core_evolves a c"
  by (auto simp: core_evolves_def)

lemma core_evolves_log: "core_evolves c (c\<lparr>co_log := co_log c @ new\<rparr>)"
  by (simp add: core_evolves_def)

definition same_switch :: "core \<Rightarrow> core \<Rightarrow> bool" where
  "same_switch c c' \<longleftrightarrow> co_reactor c' = co_reactor c \<and> co_running c' = co_running c"

lemma same_switch_refl [simp]: "same_switch c c"
  by (simp add: same_switch_def)

lemma same_switch_trans: "same_switch a b \<Longrightarrow> same_switch b c \<Longrightarrow> same_switch a c"
  by (simp add: same_switch_def)

lemma drop_client_switch [simp]: "same_switch c (drop_client env fd c)"
  by (simp add: drop_client_def same_switch_def Let_def)

lemma send_parts_switch: "send_parts env fd ps c = Done (keep, c') \<Longrightarrow> same_switch c c'"
proof (induction ps arbitrary: c)
  case Nil
  then show ?case by (simp add: same_switch_def)
next
  case (Cons p ps)
  then obtain ok log where w: "write_all env fd p (co_log c) = Done (ok, log)"
    by (cases "write_all env fd p (co_log c)") auto
  with Cons.prems Cons.IH [of "c\<lparr>co_log := log\<rparr>"] drop_client_switch [of "c\<lparr>co_log := log\<rparr>" env fd]
  show ?case by (cases ok) (auto simp: same_switch_def)
qed

lemma respond_switch: "respond env fd request_id r c = Done (keep, c') \<Longrightarrow> same_switch c c'"
  by (auto simp: respond_def simp del: send_parts.simps split: sum.splits prod.splits
      intro: send_parts_switch)

lemma handlers_switch:
  "handle_exec w h payload c = Done (r, c') \<Longrightarrow> same_switch c c'"
  "handle_ast_symbols w h payload c = Done (r, c') \<Longrightarrow> same_switch c c'"
  "handle_ast_slice w h payload c = Done (r, c') \<Longrightarrow> same_switch c c'"
  "handle_ast_patch w h payload c = Done (r, c') \<Longrightarrow> same_switch c c'"
  "handle_cdp w h payload c = Done (r, c') \<Longrightarrow> same_switch c c'"
  "handle_read_file w h payload c = Done (r, c') \<Longrightarrow> same_switch c c'"
  "handle_write_file w h payload c = Done (r, c') \<Longrightarrow> same_switch c c'"
  by (auto simp: handle_exec_def handle_ast_symbols_def handle_ast_slice_def handle_ast_patch_def
      handle_cdp_def handle_read_file_def handle_write_file_def same_switch_def run_bind_Done Let_def
      split: option.splits prod.splits)

lemma answer_switch:
  assumes "answer w handle fd h payload c = Done (keep, c')"
    and "\<And>r c1. handle h payload c = Done (r, c1) \<Longrightarrow> same_switch c c1"
  shows "same_switch c c'"
proof -
  obtain r c1 where h: "handle h payload c = Done (r, c1)"
    using assms(1) by (cases "handle h payload c") (auto simp: answer_def)
  have "same_switch c1 c'"
    using assms(1) h by (cases r) (auto simp: answer_def dest: respond_switch)
  with assms(2) [OF h] show ?thesis by (rule same_switch_trans)
qed

lemma dispatch_switch:
  assumes "dispatch_frame w fd h payload c = Done (keep, c')"
  shows "same_switch c c' \<or> c' = c\<lparr>co_running := False\<rparr>"
proof (cases "opcode_of (fh_opcode h)")
  case None
  with assms show ?thesis by (simp add: dispatch_frame_def same_switch_def)
next
  case (Some op)
  have pong: "same_switch c c'" if "send_pong (w_env w) fd (fh_request_id h) c = Done (keep, c')"
    using that by (auto simp: send_pong_def simp del: send_parts.simps split: sum.splits prod.splits
        intro: send_parts_switch)
  show ?thesis
    using assms Some
    by (cases op) (auto simp: dispatch_frame_def intro: pong elim!: answer_switch handlers_switch)
qed

lemma dispatch_evolves:
  assumes "dispatch_frame w fd h payload c = Done (keep, c')"
  shows "core_evolves c c'"
  using dispatch_switch [OF assms] dispatch_grows [OF assms]
  by (auto simp: core_evolves_def same_switch_def)

lemma drop_slot_evolves: "core_evolves c (snd (drop_slot env s c))"
  by (auto simp: drop_slot_def slot_reset_def reactor_remove_def reactor_ctl_def sys_close_def
      core_evolves_def Let_def)

lemma process_evolves: "process_client_frames w s c = Done (s', c') \<Longrightarrow> core_evolves c c'"
proof (induction "fv_size (cl_rx s)" arbitrary: s c rule: less_induct)
  case less
  show ?case
  proof (cases "front_of (fv_as_span (cl_rx s))")
    case Wait
    with less.prems show ?thesis by (subst (asm) process_front) simp
  next
    case Reject
    with less.prems drop_slot_evolves [of c "w_env w" s] show ?thesis by (subst (asm) process_front) simp
  next
    case (Frame h)
    have n: "0 < frame_len h" "frame_len h \<le> fv_size (cl_rx s)"
      using front_of_FrameD [OF Frame] by simp_all
    obtain keep c1 where "dispatch_frame w (cl_fd s) h
        (take (unat (fh_payload_len h)) (drop HEADER_SIZE (fv_as_span (cl_rx s)))) c = Done (keep, c1)"
      and p: "process_client_frames w (after_dispatch (frame_len h) keep s) c1 = Done (s', c')"
      using less.prems Frame by (subst (asm) process_front) (auto simp: run_bind_Done)
    then show ?thesis
      using less.hyps [OF after_dispatch_shorter [OF n] p] dispatch_evolves core_evolves_trans by blast
  qed
qed

lemma feed_evolves: "feed w bytes s c = Done (s', c') \<Longrightarrow> core_evolves c c'"
  using drop_slot_evolves [of c "w_env w"]
  by (auto simp: feed_def process_evolves split: prod.splits bool.splits) (metis snd_conv)+

lemma sys_read_grows: "sys_read env fd n log = (r, log') \<Longrightarrow> \<exists>new. log' = log @ new"
  by (auto simp: sys_read_def split: sysres.splits)

lemma receive_evolves:
  assumes "receive w s c = Done (go, s', c')"
  shows "core_evolves c c'"
proof (cases "sys_read (w_env w) (cl_fd s) 4096 (co_log c)")
  case (Pair r log)
  let ?c = "c\<lparr>co_log := log\<rparr>"
  have 1: "core_evolves c ?c"
    using sys_read_grows [OF Pair] by (auto simp: core_evolves_log)
  have "core_evolves ?c c'"
    using assms Pair drop_slot_evolves [of ?c "w_env w" s]
    by (auto simp: receive_def run_bind_Done feed_evolves split: sysres.splits if_splits)
  with 1 show ?thesis by (rule core_evolves_trans)
qed

lemma slot_event_evolves:
  assumes "slot_event w flags s c = Done (s', c')"
  shows "core_evolves c c'"
proof -
  obtain go s1 c1 where r: "(if flags AND EPOLLIN \<noteq> 0 then receive w s c else Done (True, s, c)) = Done (go, s1, c1)"
    and e: "(s', c') = (if go \<and> cl_fd s1 \<ge> 0 \<and> flags AND hang_up \<noteq> 0 then drop_slot (w_env w) s1 c1 else (s1, c1))"
    using assms by (auto simp: slot_event_def run_bind_Done)
  have "core_evolves c c1" using r receive_evolves by (auto split: if_splits)
  moreover have "core_evolves c1 c'"
    using e drop_slot_evolves [of c1 "w_env w" s1] by (auto split: if_splits) (metis snd_conv)
  ultimately show ?thesis by (rule core_evolves_trans)
qed

section \<open>The invariant\<close>

definition open_fds :: "server \<Rightarrow> int list" where
  "open_fds sv = filter (\<lambda>fd. fd \<ge> 0) (map cl_fd (sv_clients sv))"

definition server_ok :: "server \<Rightarrow> bool" where
  "server_ok sv \<longleftrightarrow> length (sv_clients sv) = MAX_CLIENTS \<and> list_all slot_ok (sv_clients sv) \<and>
     distinct (open_fds sv)"

text \<open>What an event keeps of the server around the slots.\<close>

definition sv_evolves :: "server \<Rightarrow> server \<Rightarrow> bool" where
  "sv_evolves sv sv' \<longleftrightarrow> sv_listener sv' = sv_listener sv \<and> sv_signals sv' = sv_signals sv \<and>
     core_evolves (sv_core sv) (sv_core sv')"

lemma sv_evolves_trans [trans]: "sv_evolves a b \<Longrightarrow> sv_evolves b c \<Longrightarrow> sv_evolves a c"
  by (auto simp: sv_evolves_def intro: core_evolves_trans)

lemma set_log_evolves:
  "\<exists>new. log = co_log (sv_core sv) @ new \<Longrightarrow> sv_evolves sv (set_log log sv)"
  by (auto simp: sv_evolves_def set_log_def core_evolves_def)

lemma set_log_ok [simp]: "server_ok (set_log log sv) = server_ok sv" "open_fds (set_log log sv) = open_fds sv"
  by (simp_all add: server_ok_def open_fds_def set_log_def)

lemma set_slot_evolves: "core_evolves (sv_core sv) c \<Longrightarrow> sv_evolves sv (set_slot i (s, c) sv)"
  by (simp add: sv_evolves_def set_slot_def)

lemma distinct_filter_update:
  assumes "distinct (filter P xs)" "i < length xs" "P y \<Longrightarrow> y = xs ! i \<or> y \<notin> set xs"
  shows "distinct (filter P (xs[i := y]))"
proof -
  have xs: "xs = take i xs @ xs ! i # drop (Suc i) xs" using assms(2) by (rule id_take_nth_drop)
  have u: "xs[i := y] = take i xs @ y # drop (Suc i) xs" using assms(2) by (rule upd_conv_take_nth_drop)
  have d: "distinct (filter P (take i xs)) \<and> distinct (filter P (drop (Suc i) xs)) \<and>
      set (filter P (take i xs)) \<inter> set (filter P (drop (Suc i) xs)) = {}"
    using assms(1) unfolding xs [THEN arg_cong, of "filter P"] by (auto split: if_splits)
  show ?thesis
  proof (cases "P y")
    case False
    with d show ?thesis unfolding u by auto
  next
    case True
    from assms(3) [OF True] show ?thesis
    proof
      assume "y = xs ! i"
      with assms(1) show ?thesis by simp
    next
      assume "y \<notin> set xs"
      then have "y \<notin> set (take i xs)" "y \<notin> set (drop (Suc i) xs)"
        by (auto dest: in_set_takeD in_set_dropD)
      with d show ?thesis unfolding u by auto
    qed
  qed
qed

lemma set_slot_ok:
  assumes "server_ok sv" "i < length (sv_clients sv)" "slot_ok s"
    and "cl_fd s = cl_fd (sv_clients sv ! i) \<or> cl_fd s < 0 \<or> cl_fd s \<notin> set (map cl_fd (sv_clients sv))"
  shows "server_ok (set_slot i (s, c) sv)"
proof -
  have "distinct (filter (\<lambda>fd. fd \<ge> 0) ((map cl_fd (sv_clients sv))[i := cl_fd s]))"
    using assms by (intro distinct_filter_update) (auto simp: server_ok_def open_fds_def)
  moreover have "list_all slot_ok ((sv_clients sv)[i := s])"
    using assms set_update_subset_insert [of "sv_clients sv" i s] by (auto simp: server_ok_def list_all_iff)
  ultimately show ?thesis
    using assms(1) by (simp add: server_ok_def set_slot_def open_fds_def map_update)
qed

lemma find_slot_Some: "find_slot_by_fd fd ss = Some i \<Longrightarrow> i < length ss \<and> cl_fd (ss ! i) = fd"
  by (induction ss arbitrary: i) (auto split: if_splits)

lemma find_free_Some: "find_free_slot ss = Some i \<Longrightarrow> i < length ss \<and> cl_fd (ss ! i) < 0"
  by (induction ss arbitrary: i) (auto split: if_splits)

lemma slot_ok_nth: "server_ok sv \<Longrightarrow> i < length (sv_clients sv) \<Longrightarrow> slot_ok (sv_clients sv ! i)"
  by (simp add: server_ok_def list_all_length)

text \<open>
  What the kernel promises about an event: the descriptor was registered, so it is not negative, and
  accept gives a descriptor that is not open.
\<close>

definition kernel_event :: "env \<Rightarrow> int \<times> u32 \<Rightarrow> server \<Rightarrow> bool" where
  "kernel_event env ev sv \<longleftrightarrow> fst ev \<ge> 0 \<and>
     e_accept env (co_log (sv_core sv)) (sv_listener sv) \<notin> set (open_fds sv)"

lemma accept_keeps:
  assumes "server_ok sv" "e_accept env (co_log (sv_core sv)) (sv_listener sv) \<notin> set (open_fds sv)"
  shows "server_ok (handle_accept env sv)"
proof (cases "e_accept env (co_log (sv_core sv)) (sv_listener sv) < 0")
  case True
  with assms(1) show ?thesis by (simp add: handle_accept_def)
next
  case nonneg: False
  let ?fd = "e_accept env (co_log (sv_core sv)) (sv_listener sv)"
  show ?thesis
  proof (cases "find_free_slot (sv_clients sv)")
    case None
    with assms(1) nonneg show ?thesis by (simp add: handle_accept_def Let_def)
  next
    case (Some i)
    have i: "i < length (sv_clients sv)" "slot_ok (sv_clients sv ! i)"
      using find_free_Some [OF Some] slot_ok_nth [OF assms(1)] by simp_all
    then have "slot_fits (sv_clients sv ! i)" by (simp add: slot_ok_def)
    then have "slot_ok \<lparr>cl_fd = ?fd, cl_rx = fv_clear (cl_rx (sv_clients sv ! i))\<rparr>"
      and "slot_ok \<lparr>cl_fd = - 1, cl_rx = fv_clear (fv_clear (cl_rx (sv_clients sv ! i)))\<rparr>"
      using nonneg by (simp_all add: slot_ok_def slot_fits_def slot_view_def)
    moreover have "?fd \<notin> set (map cl_fd (sv_clients sv))"
      using assms(2) nonneg by (auto simp: open_fds_def)
    ultimately show ?thesis
      using assms(1) nonneg Some i
      by (auto simp: handle_accept_def Let_def slot_reset_def intro!: set_slot_ok split: sum.splits prod.splits)
  qed
qed

lemma accept_evolves: "sv_evolves sv (handle_accept env sv)"
  by (auto simp: handle_accept_def Let_def slot_reset_def reactor_add_def reactor_ctl_def sys_close_def
      core_evolves_def intro!: set_log_evolves set_slot_evolves split: option.splits)

lemma client_event_evolves:
  assumes "handle_client_event w fd flags sv = Done sv'"
  shows "sv_evolves sv sv'"
proof (cases "find_slot_by_fd fd (sv_clients sv)")
  case None
  with assms show ?thesis
    by (auto simp: handle_client_event_def Let_def reactor_remove_def reactor_ctl_def sys_close_def
        intro!: set_log_evolves)
next
  case (Some i)
  then obtain s' c' where e: "slot_event w flags (sv_clients sv ! i) (sv_core sv) = Done (s', c')"
    and "sv' = set_slot i (s', c') sv"
    using assms by (auto simp: handle_client_event_def run_bind_Done)
  then show ?thesis using slot_event_evolves [OF e] by (simp add: set_slot_evolves)
qed

lemma client_event_keeps:
  assumes "server_ok sv" "fd \<ge> 0" "handle_client_event w fd flags sv = Done sv'"
  shows "server_ok sv'"
proof (cases "find_slot_by_fd fd (sv_clients sv)")
  case None
  with assms show ?thesis by (auto simp: handle_client_event_def Let_def)
next
  case (Some i)
  then obtain s' c' where e: "slot_event w flags (sv_clients sv ! i) (sv_core sv) = Done (s', c')"
    and sv': "sv' = set_slot i (s', c') sv"
    using assms(3) by (auto simp: handle_client_event_def run_bind_Done)
  have i: "i < length (sv_clients sv)" "cl_fd (sv_clients sv ! i) \<ge> 0"
    using find_slot_Some [OF Some] assms(2) by simp_all
  have "slot_ok s' \<and> (cl_fd s' = cl_fd (sv_clients sv ! i) \<or> cl_fd s' < 0)"
    using slot_event_keeps [OF slot_ok_nth [OF assms(1) i(1)] i(2) e] by (auto simp: slot_view_def)
  then show ?thesis unfolding sv' using assms(1) i(1) by (intro set_slot_ok) auto
qed

lemma reap_loop_grows: "reap_loop env call fuel log = Done log' \<Longrightarrow> \<exists>new. log' = log @ new"
  by (induction fuel arbitrary: log) (fastforce split: if_splits)+

lemma reap_grows: "reap_children env log = Done log' \<Longrightarrow> \<exists>new. log' = log @ new"
  by (fastforce simp: reap_children_def run_bind_Done dest!: reap_loop_grows)

text \<open>Signals leave the clients alone.\<close>

definition only_core :: "server \<Rightarrow> server \<Rightarrow> bool" where
  "only_core sv sv' \<longleftrightarrow> sv_evolves sv sv' \<and> sv_clients sv' = sv_clients sv"

lemma only_core_trans: "only_core a b \<Longrightarrow> only_core b c \<Longrightarrow> only_core a c"
  by (auto simp: only_core_def intro: sv_evolves_trans)

lemma only_core_log: "\<exists>new. log = co_log (sv_core sv) @ new \<Longrightarrow> only_core sv (set_log log sv)"
  by (simp add: only_core_def set_log_evolves) (simp add: set_log_def)

lemma only_core_ok: "only_core sv sv' \<Longrightarrow> server_ok sv' = server_ok sv"
  by (simp add: only_core_def server_ok_def open_fds_def)

lemma handle_entries_core: "handle_entries env sigs sv = Done sv' \<Longrightarrow> only_core sv sv'"
proof (induction sigs arbitrary: sv)
  case Nil
  then show ?case by (simp add: only_core_def sv_evolves_def)
next
  case (Cons sig sigs)
  have stop: "only_core sv (sv\<lparr>sv_core := (sv_core sv)\<lparr>co_running := False\<rparr>\<rparr>)"
    by (simp add: only_core_def sv_evolves_def core_evolves_def)
  show ?case
  proof (cases "sig = SIGCHLD")
    case True
    then obtain log where r: "reap_children env (co_log (sv_core sv)) = Done log"
      and h: "handle_entries env sigs (set_log log sv) = Done sv'"
      using Cons.prems by (auto simp: run_bind_Done)
    show ?thesis by (rule only_core_trans [OF only_core_log [OF reap_grows [OF r]] Cons.IH [OF h]])
  next
    case False
    with Cons.prems Cons.IH only_core_trans [OF stop] show ?thesis by (auto split: if_splits)
  qed
qed

lemma read_signals_grows: "read_signals env fd room log = (r, log') \<Longrightarrow> \<exists>new. log' = log @ new"
  by (auto simp: read_signals_def split: if_splits)

lemma signals_loop_core: "signals_loop env fuel sv = Done sv' \<Longrightarrow> only_core sv sv'"
proof (induction fuel arbitrary: sv)
  case 0
  then show ?case by simp
next
  case (Suc fuel)
  obtain r log where r: "read_signals env (sv_signals sv) 16 (co_log (sv_core sv)) = (r, log)"
    by (cases "read_signals env (sv_signals sv) 16 (co_log (sv_core sv))")
  then have l: "only_core sv (set_log log sv)" by (intro only_core_log read_signals_grows)
  show ?case
  proof (cases "\<exists>sigs. r = Inr sigs \<and> sigs \<noteq> []")
    case False
    with Suc.prems r l show ?thesis by (auto split: sum.splits if_splits)
  next
    case True
    then obtain sigs sv1 where "r = Inr sigs" "handle_entries env sigs (set_log log sv) = Done sv1"
      "signals_loop env fuel sv1 = Done sv'"
      using Suc.prems r by (auto simp: run_bind_Done)
    then show ?thesis using l handle_entries_core Suc.IH only_core_trans by metis
  qed
qed

lemma handle_event_evolves: "handle_event w ev sv = Done sv' \<Longrightarrow> sv_evolves sv sv'"
  by (auto simp: handle_event_def handle_signals_def accept_evolves split: if_splits
      dest!: signals_loop_core client_event_evolves) (simp add: only_core_def)

lemma handle_event_keeps:
  assumes "server_ok sv" "kernel_event (w_env w) ev sv" "handle_event w ev sv = Done sv'"
  shows "server_ok sv'"
  using assms accept_keeps [OF assms(1)] client_event_keeps [OF assms(1), of "fst ev" w "snd ev" sv']
  by (auto simp: handle_event_def handle_signals_def kernel_event_def only_core_ok split: if_splits
      dest!: signals_loop_core)

section \<open>Answers\<close>

text \<open>
  What the log shows of one frame. A request whose payload can be read is worked on and then answered
  with one frame of the response opcode and the request's id, in full when the client is kept; any
  other frame leaves no trace.
\<close>

definition answered :: "int \<Rightarrow> bool \<Rightarrow> frame_header \<times> byte list \<Rightarrow> log \<Rightarrow> bool" where
  "answered fd keep frame seg \<longleftrightarrow>
     (let (h, payload) = frame in
      if answerable h payload
      then \<exists>op work new. response_opcode (opcode_of (fh_opcode h)) = Some op \<and> seg = work @ new \<and>
             frame_sent fd (fh_request_id h) op keep new
      else keep \<and> seg = [])"

lemma dispatch_answered_by:
  assumes "dispatch_frame w fd h payload c = Done (keep, c')"
  shows "\<exists>seg. co_log c' = co_log c @ seg \<and> answered fd keep (h, payload) seg"
proof (cases "answerable h payload")
  case True
  from dispatch_answered [OF assms True] True show ?thesis by (fastforce simp: answered_def)
next
  case False
  from dispatch_ignored [OF False, of w fd c] assms False show ?thesis by (auto simp: answered_def)
qed

lemma serve_frames_answers:
  "serve_frames w fd fs c = Done (keep, c') \<Longrightarrow>
   \<exists>k segs tail. co_log c' = co_log c @ concat segs @ tail \<and> list_all2 (answered fd True) (take k fs) segs \<and>
     (if keep then k = length fs \<and> tail = [] else k < length fs \<and> answered fd False (fs ! k) tail)"
proof (induction fs arbitrary: c)
  case Nil
  then show ?case by (intro exI [of _ 0] exI [of _ "[]"]) simp
next
  case (Cons f fs)
  obtain h payload where f: "f = (h, payload)" by (cases f)
  obtain k1 c1 where d: "dispatch_frame w fd h payload c = Done (k1, c1)"
    and rest: "(if k1 then serve_frames w fd fs c1 else Done (False, c1)) = Done (keep, c')"
    using Cons.prems f by (auto simp: run_bind_Done)
  obtain seg where seg: "co_log c1 = co_log c @ seg" "answered fd k1 f seg"
    using dispatch_answered_by [OF d] f by blast
  show ?case
  proof (cases k1)
    case False
    with rest seg show ?thesis by (intro exI [of _ 0] exI [of _ "[]"] exI [of _ seg]) simp
  next
    case True
    with rest have "serve_frames w fd fs c1 = Done (keep, c')" by simp
    from Cons.IH [OF this] obtain k segs tail where
      "co_log c' = co_log c1 @ concat segs @ tail" "list_all2 (answered fd True) (take k fs) segs"
      "if keep then k = length fs \<and> tail = [] else k < length fs \<and> answered fd False (fs ! k) tail"
      by blast
    with seg True show ?thesis
      by (intro exI [of _ "Suc k"] exI [of _ "seg # segs"] exI [of _ tail]) auto
  qed
qed

lemma process_answers:
  assumes "slot_fits s" "cl_fd s \<ge> 0" "process_client_frames w s c = Done (s', c')"
    and "parse_frames (fv_as_span (cl_rx s)) = (fs, rest)"
  shows "\<exists>k segs tail. co_log c' = co_log c @ concat segs @ tail \<and>
    list_all2 (answered (cl_fd s) True) (take k fs) segs \<and>
    (if cl_fd s' \<ge> 0 then k = length fs \<and> tail = [] \<and> rest = Some (fv_as_span (cl_rx s'))
     else k < length fs \<and> answered (cl_fd s) False (fs ! k) tail \<or>
          k = length fs \<and> rest = None \<and> closed tail = [cl_fd s])"
proof -
  have "serve w (cl_fd s) (fv_as_span (cl_rx s)) c = Done ((cl_fd s', fv_as_span (cl_rx s')), c')"
    using process_refines [OF assms(1,2), of w c] assms(3) by simp
  then obtain keep c1 where sf: "serve_frames w (cl_fd s) fs c = Done (keep, c1)"
    and e: "((cl_fd s', fv_as_span (cl_rx s')), c') = (if \<not> keep then ((- 1, []), c1)
      else case rest of Some r \<Rightarrow> ((cl_fd s, r), c1) | None \<Rightarrow> ((- 1, []), drop_client (w_env w) (cl_fd s) c1))"
    using assms(4) by (auto simp: serve_def run_bind_Done)
  obtain k segs tail where a: "co_log c1 = co_log c @ concat segs @ tail"
    "list_all2 (answered (cl_fd s) True) (take k fs) segs"
    "if keep then k = length fs \<and> tail = [] else k < length fs \<and> answered (cl_fd s) False (fs ! k) tail"
    using serve_frames_answers [OF sf] by blast
  show ?thesis
  proof (cases "keep \<and> rest = None")
    case True
    obtain t where "drop_client (w_env w) (cl_fd s) c1 = c1\<lparr>co_log := co_log c1 @ t\<rparr>" "closed t = [cl_fd s]"
      using drop_client_log [of "w_env w" "cl_fd s" c1] assms(2) by auto
    with True a e show ?thesis
      by (intro exI [of _ k] exI [of _ segs] exI [of _ t]) simp
  next
    case False
    with a e assms(2) show ?thesis
      by (intro exI [of _ k] exI [of _ segs] exI [of _ tail]) (auto split: if_splits option.splits)
  qed
qed

section \<open>Reachable states\<close>

text \<open>
  The states of a server that was initialised: the reactor is waited for, and the events that the
  kernel can report are handled.
\<close>

inductive reachable :: "'n world \<Rightarrow> server \<Rightarrow> bool" for w where
  start: "server_init (w_env w) listener signal_fd (server_new log) = (Inr (), sv) \<Longrightarrow> reachable w sv"
| wait: "reachable w sv \<Longrightarrow>
    reactor_wait (w_env w) (co_reactor (sv_core sv)) 16 1000 (co_log (sv_core sv)) = (r, log) \<Longrightarrow>
    reachable w (set_log log sv)"
| event: "reachable w sv \<Longrightarrow> kernel_event (w_env w) ev sv \<Longrightarrow> handle_event w ev sv = Done sv' \<Longrightarrow>
    reachable w sv'"

lemma slot_ok_init [simp]: "slot_ok slot_init"
  by (simp add: slot_ok_def slot_init_def slot_fits_def slot_view_def)

lemma server_ok_new [simp]: "server_ok (server_new log)"
  by (simp add: server_ok_def server_new_def open_fds_def list_all_iff slot_init_def [symmetric])
    (simp add: slot_init_def)

lemma server_init_ok:
  assumes "server_init env listener signal_fd sv = (r, sv')"
  shows "sv_clients sv' = sv_clients sv"
  using assms
  by (auto simp: server_init_def set_log_def Let_def split: sum.splits prod.splits)

lemma reachable_ok: "reachable w sv \<Longrightarrow> server_ok sv"
proof (induction rule: reachable.induct)
  case (start listener signal_fd log sv)
  then show ?case
    using server_init_ok [OF start] server_ok_new [of log] by (simp add: server_ok_def open_fds_def)
next
  case (wait sv r log)
  then show ?case by simp
next
  case (event sv ev sv')
  then show ?case using handle_event_keeps by blast
qed

section \<open>The end of a run\<close>

lemma drop_clients_spec:
  "drop_clients env ss c = (ss', c') \<Longrightarrow>
   ss' = map (\<lambda>s. if cl_fd s \<ge> 0 then \<lparr>cl_fd = - 1, cl_rx = fv_clear (cl_rx s)\<rparr> else s) ss \<and>
   (\<exists>new. c' = c\<lparr>co_log := co_log c @ new\<rparr> \<and> closed new = filter (\<lambda>fd. fd \<ge> 0) (map cl_fd ss))"
proof (induction ss arbitrary: ss' c)
  case Nil
  then show ?case by (auto simp: log_simps intro!: exI [of _ "[]"])
next
  case (Cons s ss)
  obtain s1 c1 where h: "(if cl_fd s \<ge> 0 then drop_slot env s c else (s, c)) = (s1, c1)" by fastforce
  obtain ss1 where t: "drop_clients env ss c1 = (ss1, c')" and ss': "ss' = s1 # ss1"
    using Cons.prems h by (auto simp: Let_def split: prod.splits)
  obtain t0 where d: "c1 = c\<lparr>co_log := co_log c @ t0\<rparr>" "closed t0 = (if cl_fd s \<ge> 0 then [cl_fd s] else [])"
    and s1: "s1 = (if cl_fd s \<ge> 0 then \<lparr>cl_fd = - 1, cl_rx = fv_clear (cl_rx s)\<rparr> else s)"
  proof (cases "cl_fd s \<ge> 0")
    case True
    with h that drop_client_log [of env "cl_fd s" c] show ?thesis by (auto simp: drop_slot_eq)
  next
    case False
    with h have eqs: "s1 = s" "c1 = c" by simp_all
    show ?thesis by (rule that [of "[]"]) (use False eqs in \<open>simp_all add: log_simps\<close>)
  qed
  from Cons.IH [OF t] obtain new where
    1: "ss1 = map (\<lambda>s. if cl_fd s \<ge> 0 then \<lparr>cl_fd = - 1, cl_rx = fv_clear (cl_rx s)\<rparr> else s) ss"
    "c' = c1\<lparr>co_log := co_log c1 @ new\<rparr>" "closed new = filter (\<lambda>fd. fd \<ge> 0) (map cl_fd ss)" by blast
  from this(2,3) d have "c' = c\<lparr>co_log := co_log c @ (t0 @ new)\<rparr>"
    "closed (t0 @ new) = filter (\<lambda>fd. fd \<ge> 0) (map cl_fd (s # ss))"
    by (simp_all add: log_simps)
  moreover have "ss' = map (\<lambda>s. if cl_fd s \<ge> 0 then \<lparr>cl_fd = - 1, cl_rx = fv_clear (cl_rx s)\<rparr> else s) (s # ss)"
    by (simp add: ss' s1 1)
  ultimately show ?case by blast
qed

lemma bridge_stop_spec:
  assumes "bridge_stop b log = (b', log')"
  shows "\<not> br_started b' \<and> br_to b' < 0 \<and> br_from b' < 0 \<and> br_pid b' \<le> 0 \<and>
    (\<exists>new. log' = log @ new \<and> closed new = filter (\<lambda>fd. fd \<ge> 0) [br_to b, br_from b] \<and>
       (0 < br_pid b \<longrightarrow> EvProcess (Call_Kill (br_pid b) SIGKILL) \<in> set new))"
proof -
  let ?l1 = "if br_to b \<ge> 0 then [EvClose (br_to b)] else []"
  let ?l2 = "if br_from b \<ge> 0 then [EvClose (br_from b)] else []"
  let ?l3 = "if br_pid b > 0 then [EvProcess (Call_Kill (br_pid b) SIGKILL),
    EvProcess (Call_Waitpid (br_pid b) False)] else []"
  have "log' = log @ ?l1 @ ?l2 @ ?l3"
    using assms by (simp add: bridge_stop_def sys_close_def Let_def split: if_splits)
  moreover have "closed (?l1 @ ?l2 @ ?l3) = filter (\<lambda>fd. fd \<ge> 0) [br_to b, br_from b]"
    by (simp add: log_simps)
  ultimately show ?thesis
    using assms by (auto simp: bridge_stop_def Let_def)
qed

text \<open>What is left of a server after cleanup, and what cleanup closed, in order.\<close>

definition shut_down :: "server \<Rightarrow> server \<Rightarrow> bool" where
  "shut_down sv sv' \<longleftrightarrow>
     list_all (\<lambda>s. cl_fd s < 0) (sv_clients sv') \<and> open_fds sv' = [] \<and>
     (let b = co_bridge (sv_core sv'); b0 = co_bridge (sv_core sv) in
      \<not> br_started b \<and> br_to b < 0 \<and> br_from b < 0 \<and> br_pid b \<le> 0 \<and>
      (\<exists>new. co_log (sv_core sv') = co_log (sv_core sv) @ new \<and>
         closed new = open_fds sv @ filter (\<lambda>fd. fd \<ge> 0) [br_to b0, br_from b0] \<and>
         (0 < br_pid b0 \<longrightarrow> EvProcess (Call_Kill (br_pid b0) SIGKILL) \<in> set new)))"

lemma cleanup_shut_down: "shut_down sv (cleanup env sv)"
proof -
  obtain ss c where d: "drop_clients env (sv_clients sv) (sv_core sv) = (ss, c)"
    by (cases "drop_clients env (sv_clients sv) (sv_core sv)")
  obtain b log where b: "bridge_stop (co_bridge c) (co_log c) = (b, log)"
    by (cases "bridge_stop (co_bridge c) (co_log c)")
  from drop_clients_spec [OF d] obtain n1 where
    1: "ss = map (\<lambda>s. if cl_fd s \<ge> 0 then \<lparr>cl_fd = - 1, cl_rx = fv_clear (cl_rx s)\<rparr> else s) (sv_clients sv)"
      "c = (sv_core sv)\<lparr>co_log := co_log (sv_core sv) @ n1\<rparr>" "closed n1 = open_fds sv"
    by (auto simp: open_fds_def)
  from bridge_stop_spec [OF b] obtain n2 where
    2: "\<not> br_started b \<and> br_to b < 0 \<and> br_from b < 0 \<and> br_pid b \<le> 0" "log = co_log c @ n2"
      "closed n2 = filter (\<lambda>fd. fd \<ge> 0) [br_to (co_bridge (sv_core sv)), br_from (co_bridge (sv_core sv))]"
      "0 < br_pid (co_bridge (sv_core sv)) \<longrightarrow>
        EvProcess (Call_Kill (br_pid (co_bridge (sv_core sv))) SIGKILL) \<in> set n2"
    using 1(2) by auto
  have "list_all (\<lambda>s. cl_fd s < 0) ss" by (auto simp: 1(1) list_all_iff)
  moreover from this have "filter (\<lambda>fd. fd \<ge> 0) (map cl_fd ss) = []"
    by (auto simp: list_all_iff filter_empty_conv)
  ultimately show ?thesis
    using d b 1 2 by (auto simp: shut_down_def cleanup_def open_fds_def Let_def log_simps)
qed

lemma handle_events_stopped:
  "handle_events w evs sv = Done sv' \<Longrightarrow> \<not> co_running (sv_core sv) \<Longrightarrow> \<not> co_running (sv_core sv')"
proof (induction evs arbitrary: sv)
  case Nil
  then show ?case by simp
next
  case (Cons ev evs)
  then obtain sv1 where "handle_event w ev sv = Done sv1" "handle_events w evs sv1 = Done sv'"
    by (auto simp: run_bind_Done)
  with Cons show ?case by (meson handle_event_evolves core_evolves_def sv_evolves_def)
qed

end
