(* ===== verification/Appliance.thy ===== *)
theory Appliance
  imports Server_Safety
begin

text \<open>
  The properties of the whole guest: how requests are answered, that chunks do not matter, the
  invariant of the server, how a run ends and what main leaves behind, each with an instance.
\<close>

section \<open>Stopping\<close>

lemma only_core_stopped:
  "only_core sv sv' \<Longrightarrow> \<not> co_running (sv_core sv) \<Longrightarrow> \<not> co_running (sv_core sv')"
  by (auto simp: only_core_def sv_evolves_def core_evolves_def)

lemma handle_entries_stop:
  "handle_entries env sigs sv = Done sv' \<Longrightarrow> SIGTERM \<in> set sigs \<or> SIGINT \<in> set sigs \<Longrightarrow>
   \<not> co_running (sv_core sv')"
proof (induction sigs arbitrary: sv)
  case Nil
  then show ?case by simp
next
  case (Cons sig sigs)
  have chld: "SIGCHLD \<noteq> SIGTERM" "SIGCHLD \<noteq> SIGINT"
    by (simp_all add: SIGCHLD_def SIGTERM_def SIGINT_def)
  show ?case
  proof (cases "sig = SIGTERM \<or> sig = SIGINT")
    case True
    with Cons.prems chld
    have "handle_entries env sigs (sv\<lparr>sv_core := (sv_core sv)\<lparr>co_running := False\<rparr>\<rparr>) = Done sv'"
      by (auto split: if_splits)
    from only_core_stopped [OF handle_entries_core [OF this]] show ?thesis by simp
  next
    case False
    with Cons show ?thesis by (auto simp: run_bind_Done split: if_splits)
  qed
qed

lemma handle_signals_stop:
  assumes "handle_signals env sv = Done sv'"
    and "fst (read_signals env (sv_signals sv) 16 (co_log (sv_core sv))) = Inr sigs"
    and "SIGTERM \<in> set sigs \<or> SIGINT \<in> set sigs"
  shows "\<not> co_running (sv_core sv')"
proof -
  obtain log where r: "read_signals env (sv_signals sv) 16 (co_log (sv_core sv)) = (Inr sigs, log)"
    using assms(2) by (metis prod.collapse)
  from assms(1) obtain fuel where "signals_loop env (Suc fuel) sv = Done sv'"
    by (cases "e_fuel env") (auto simp: handle_signals_def)
  moreover have "sigs \<noteq> []" using assms(3) by auto
  ultimately obtain sv1 where h: "handle_entries env sigs (set_log log sv) = Done sv1"
    and l: "signals_loop env fuel sv1 = Done sv'"
    using r by (auto simp: run_bind_Done)
  show ?thesis
    by (rule only_core_stopped [OF signals_loop_core [OF l] handle_entries_stop [OF h assms(3)]])
qed

lemma handle_events_append:
  "handle_events w (xs @ ys) sv = run_bind (handle_events w xs sv) (handle_events w ys)"
  by (induction xs arbitrary: sv) (auto simp: run_bind_assoc intro!: run_bind_cong)

lemma sv_evolves_refl [simp]: "sv_evolves sv sv"
  by (simp add: sv_evolves_def)

lemma handle_events_evolves: "handle_events w evs sv = Done sv' \<Longrightarrow> sv_evolves sv sv'"
proof (induction evs arbitrary: sv)
  case Nil
  then show ?case by simp
next
  case (Cons ev evs)
  then obtain sv1 where "handle_event w ev sv = Done sv1" "handle_events w evs sv1 = Done sv'"
    by (auto simp: run_bind_Done)
  with Cons.IH show ?case using handle_event_evolves sv_evolves_trans by blast
qed

lemma reactor_wait_grows: "reactor_wait env ep n t log = (r, log') \<Longrightarrow> \<exists>new. log' = log @ new"
  by (auto simp: reactor_wait_def split: if_splits)

text \<open>A run that returns: it was told to stop and cleaned up, or the reactor failed.\<close>

lemma run_loop_end:
  "run_loop w fuel sv = Done (r, sv') \<Longrightarrow>
   \<exists>sv1. sv_evolves sv sv1 \<and>
     (case r of Inr _ \<Rightarrow> \<not> co_running (sv_core sv1) \<and> sv' = cleanup (w_env w) sv1
      | Inl e \<Rightarrow> e = EpollError \<and> sv' = sv1)"
proof (induction fuel arbitrary: sv)
  case 0
  then show ?case by (auto split: if_splits intro!: exI [of _ sv])
next
  case (Suc fuel)
  show ?case
  proof (cases "co_running (sv_core sv)")
    case False
    with Suc.prems show ?thesis by (auto intro!: exI [of _ sv])
  next
    case True
    obtain x log where w: "reactor_wait (w_env w) (co_reactor (sv_core sv)) 16 1000 (co_log (sv_core sv)) = (x, log)"
      by fastforce
    have e: "sv_evolves sv (set_log log sv)" by (rule set_log_evolves [OF reactor_wait_grows [OF w]])
    show ?thesis
    proof (cases x)
      case (Inl err)
      then have "err = EpollError" using w by (auto simp: reactor_wait_def split: option.splits if_splits)
      with Suc.prems True w e Inl show ?thesis by auto
    next
      case (Inr evs)
      then obtain sv2 where h: "handle_events w evs (set_log log sv) = Done sv2"
        and l: "run_loop w fuel sv2 = Done (r, sv')"
        using Suc.prems True w by (auto simp: run_bind_Done)
      from Suc.IH [OF l] sv_evolves_trans [OF e handle_events_evolves [OF h]] show ?thesis
        using sv_evolves_trans by blast
    qed
  qed
qed

section \<open>Start\<close>

lemma server_init_new:
  assumes "server_init env listener signal_fd (server_new log) = (Inr (), sv)" "signal_fd \<ge> 0"
  obtains ep where "ep \<ge> 0" "co_reactor (sv_core sv) = ep" "sv_signals sv = signal_fd"
    "co_log (sv_core sv) = log @ [EvEpoll Epoll_Create, EvEpoll (Epoll_Add ep listener EPOLLIN),
       EvEpoll (Epoll_Add ep signal_fd EPOLLIN)]"
  using assms
  by (auto simp: server_init_def server_new_def reactor_create_def reactor_assign_def signalfd_assign_def
      reactor_add_def reactor_ctl_def set_log_def Let_def split: if_splits)

text \<open>Nothing in the log was waited for, and the machine was not switched off.\<close>

definition noisy :: "event \<Rightarrow> bool" where
  "noisy ev = (case ev of
     EvEpoll c \<Rightarrow> (case c of Epoll_Wait ep t \<Rightarrow> True | _ \<Rightarrow> False) | EvBoot b \<Rightarrow> b = Call_Reboot | _ \<Rightarrow> False)"

definition quiet :: "log \<Rightarrow> bool" where
  "quiet new \<longleftrightarrow> list_all (\<lambda>ev. \<not> noisy ev) new"

lemma noisy_simps [simp]:
  "\<not> noisy (EvClose fd)" "\<not> noisy (EvProcess p)" "\<not> noisy (EvFile f)" "\<not> noisy (EvSignal s)"
  "\<not> noisy (EvEpoll Epoll_Create)" "\<not> noisy (EvEpoll (Epoll_Add ep fd flags))"
  "noisy (EvEpoll (Epoll_Wait ep t))" "noisy (EvBoot b) \<longleftrightarrow> b = Call_Reboot"
  by (simp_all add: noisy_def)

lemma quiet_simps [simp]:
  "quiet []" "quiet (l @ l') \<longleftrightarrow> quiet l \<and> quiet l'" "quiet (ev # l) \<longleftrightarrow> \<not> noisy ev \<and> quiet l"
  by (auto simp: quiet_def)

lemma quiet_take: "quiet l \<Longrightarrow> quiet (take n l)"
  by (auto simp: quiet_def list_all_iff dest: in_set_takeD)

lemma quiet_rows: "quiet (concat (map row_events table))"
  by (induction table) (auto simp: row_events_def)

lemma start_mounts_quiet: "\<exists>new. start_mounts env pid log = log @ new \<and> quiet new"
proof (cases "pid = 1")
  case False
  then show ?thesis by (simp add: start_mounts_def)
next
  case True
  obtain new where new: "snd (mount_essential_filesystems env log) = log @ new" "quiet new"
  proof (cases "e_getpid env log = 1")
    case False
    with that [of "[EvBoot Call_Getpid]"] show ?thesis by (simp add: mount_essential_filesystems_def)
  next
    case True
    let ?log = "log @ [EvBoot Call_Getpid, EvBoot (Call_Umask 18)]"
    obtain n where "snd (mount_all env mount_table ?log) = ?log @ take n (concat (map row_events mount_table))"
      using mount_all_order [of env mount_table ?log] by blast
    with True that [of "[EvBoot Call_Getpid, EvBoot (Call_Umask 18)] @ take n (concat (map row_events mount_table))"]
    show ?thesis by (simp add: mount_essential_filesystems_def quiet_take quiet_rows)
  qed
  then show ?thesis
    using True by (cases "mount_essential_filesystems env log")
      (auto simp: start_mounts_def say_def split: sum.splits)
qed

lemma cleanup_handles: "co_reactor (sv_core (cleanup env sv)) = co_reactor (sv_core sv) \<and>
  sv_signals (cleanup env sv) = sv_signals sv \<and> (\<exists>new. co_log (sv_core (cleanup env sv)) = co_log (sv_core sv) @ new)"
proof -
  obtain ss c where d: "drop_clients env (sv_clients sv) (sv_core sv) = (ss, c)"
    by (cases "drop_clients env (sv_clients sv) (sv_core sv)")
  obtain b log where b: "bridge_stop (co_bridge c) (co_log c) = (b, log)"
    by (cases "bridge_stop (co_bridge c) (co_log c)")
  from drop_clients_spec [OF d] bridge_stop_spec [OF b] d b show ?thesis
    by (auto simp: cleanup_def)
qed

text \<open>The tail of the main function, from the end of the run on.\<close>

lemma serve_forever_end:
  assumes "serve_forever w pid listener sv = Done (code, log')" "sv_signals sv \<ge> 0" "co_reactor (sv_core sv) \<ge> 0"
  shows "\<exists>mid post fds. code = 0 \<and> log' = co_log (sv_core sv) @ mid @ post \<and>
    closed post = listener # fds @ [sv_signals sv, co_reactor (sv_core sv)] \<and>
    (EvBoot Call_Reboot \<in> set post \<longleftrightarrow> pid = 1)"
proof -
  let ?sv = "set_log (say ''Entering steady-state reactor loop'' (co_log (sv_core sv))) sv"
  obtain r sv1 where run: "server_run w ?sv = Done (r, sv1)"
    using assms(1) by (cases "server_run w ?sv") (auto simp: serve_forever_def)
  have h: "co_reactor (sv_core sv1) = co_reactor (sv_core sv)" "sv_signals sv1 = sv_signals sv"
    "\<exists>mid. co_log (sv_core sv1) = co_log (sv_core sv) @ mid"
  proof -
    obtain sv2 where e: "sv_evolves ?sv sv2" and c: "sv1 = sv2 \<or> sv1 = cleanup (w_env w) sv2"
      using run_loop_end [OF run [unfolded server_run_def]] by (cases r) auto
    have "co_reactor (sv_core sv1) = co_reactor (sv_core sv2) \<and> sv_signals sv1 = sv_signals sv2 \<and>
        (\<exists>mid. co_log (sv_core sv1) = co_log (sv_core sv2) @ mid)"
      using c cleanup_handles [of "w_env w" sv2] by auto
    with e show "co_reactor (sv_core sv1) = co_reactor (sv_core sv)" "sv_signals sv1 = sv_signals sv"
      "\<exists>mid. co_log (sv_core sv1) = co_log (sv_core sv) @ mid"
      by (auto simp: sv_evolves_def core_evolves_def set_log_def say_def)
  qed
  then obtain mid where mid: "co_log (sv_core sv1) = co_log (sv_core sv) @ mid" by blast
  obtain pre where pre: "(case r of Inl e \<Rightarrow> say (''Server reactor returned error: '' @ to_string_view e)
        (co_log (sv_core sv1)) | Inr _ \<Rightarrow> co_log (sv_core sv1)) = co_log (sv_core sv1) @ pre"
    by (cases r) (auto simp: say_def)
  let ?post = "[EvClose listener, EvBoot (Call_Print (''[axiom-initd] '' @ ''Appliance runtime shutting down'' @ [CHR 0x0A]))]
    @ (if pid = 1 then [EvBoot Call_Sync, EvBoot Call_Reboot] else [])"
  obtain b l1 where b: "bridge_stop (co_bridge (sv_core sv1)) (co_log (sv_core sv1) @ pre @ ?post) = (b, l1)"
    by (cases "bridge_stop (co_bridge (sv_core sv1)) (co_log (sv_core sv1) @ pre @ ?post)")
  obtain tail where tail: "l1 = (co_log (sv_core sv1) @ pre @ ?post) @ tail"
    "closed tail = filter (\<lambda>fd. fd \<ge> 0) [br_to (co_bridge (sv_core sv1)), br_from (co_bridge (sv_core sv1))]"
    using bridge_stop_spec [OF b] by auto
  have "EvBoot Call_Reboot \<notin> set tail"
    using b tail(1) by (auto simp: bridge_stop_def sys_close_def Let_def split: if_splits)
  moreover have "code = 0" "log' = co_log (sv_core sv) @ (mid @ pre) @ (?post @ tail @
      [EvClose (sv_signals sv), EvClose (co_reactor (sv_core sv))])"
    using assms run h(1,2) pre b tail(1) mid
    by (auto simp: serve_forever_def server_drop_def signalfd_drop_def reactor_drop_def sys_close_def set_log_def
        say_def Let_def split: if_splits)
  ultimately show ?thesis
    using tail(2)
    by (intro exI [of _ "mid @ pre"] exI [of _ "?post @ tail @
      [EvClose (sv_signals sv), EvClose (co_reactor (sv_core sv))]"] exI [of _ "closed tail"])
      (simp add: log_simps)
qed

lemma start_listener:
  assumes "create_listener env port cid backlog log = (Inr fd, log')"
  shows "\<exists>new. log' = log @ new \<and> quiet new \<and> EvBoot (Call_Bind fd port cid) \<in> set new \<and> fd \<ge> 0"
  using assms by (auto simp: create_listener_def Let_def split: if_splits)

lemma start_listener_fails:
  "create_listener env port cid backlog log = (Inl e, log') \<Longrightarrow> \<exists>new. log' = log @ new \<and> quiet new"
  by (auto simp: create_listener_def sys_close_def Let_def split: if_splits)

lemma server_init_quiet:
  assumes "server_init env listener signal_fd (server_new log) = (r, sv)"
  shows "\<exists>new. co_log (sv_core sv) = log @ new \<and> quiet new \<and> br_to (co_bridge (sv_core sv)) < 0 \<and>
    br_from (co_bridge (sv_core sv)) < 0 \<and> br_pid (co_bridge (sv_core sv)) \<le> 0"
  using assms
  by (auto simp: server_init_def server_new_def reactor_create_def reactor_assign_def signalfd_assign_def
      signalfd_drop_def sys_close_def bridge_init_def
      reactor_add_def reactor_ctl_def set_log_def Let_def split: if_splits)

lemma server_drop_quiet:
  assumes "br_to (co_bridge (sv_core sv)) < 0" "br_from (co_bridge (sv_core sv)) < 0"
    "br_pid (co_bridge (sv_core sv)) \<le> 0"
  shows "\<exists>new. server_drop sv = co_log (sv_core sv) @ new \<and> quiet new"
  using assms
  by (auto simp: server_drop_def bridge_stop_def signalfd_drop_def reactor_drop_def sys_close_def Let_def)

text \<open>The three ways through main: it fails before anything was waited for, or the server is started.\<close>

definition started :: "'n world \<Rightarrow> log \<Rightarrow> log \<Rightarrow> int \<Rightarrow> int \<Rightarrow> server \<Rightarrow> bool" where
  "started w log pre lfd sfd sv \<longleftrightarrow> quiet pre \<and> sfd \<ge> 0 \<and> sv_signals sv = sfd \<and> co_reactor (sv_core sv) \<ge> 0 \<and>
     co_log (sv_core sv) = log @ pre \<and> EvBoot (Call_Bind lfd DEFAULT_GUEST_PORT VMADDR_CID_ANY) \<in> set pre \<and>
     EvEpoll (Epoll_Add (co_reactor (sv_core sv)) lfd EPOLLIN) \<in> set pre \<and>
     EvEpoll (Epoll_Add (co_reactor (sv_core sv)) sfd EPOLLIN) \<in> set pre"

lemma say_quiet: "\<exists>msg. say s log = log @ [msg] \<and> \<not> noisy msg"
  by (simp add: say_def)

lemma main_listening:
  assumes "signalfd_create (w_env w) [17, 15, 2] (log @ n1) = (Inr sfd, (log @ n1) @ n2)" "quiet n1" "quiet n2"
    and "create_listener (w_env w) DEFAULT_GUEST_PORT VMADDR_CID_ANY DEFAULT_BACKLOG ((log @ n1) @ n2) = (Inr lfd, l3)"
    and "server_init (w_env w) lfd sfd (server_new (say s l3)) = (r, sv)"
  shows "case r of
      Inr _ \<Rightarrow> \<exists>pre. started w log pre lfd sfd sv
    | Inl e \<Rightarrow> \<exists>new. server_drop (set_log (sys_close lfd (say t (co_log (sv_core sv)))) sv) = log @ new \<and> quiet new"
proof -
  have sfd: "sfd \<ge> 0" using assms(1) by (auto simp: signalfd_create_def Let_def split: if_splits)
  obtain n3 where n3: "l3 = ((log @ n1) @ n2) @ n3" "quiet n3"
    "EvBoot (Call_Bind lfd DEFAULT_GUEST_PORT VMADDR_CID_ANY) \<in> set n3"
    using start_listener [OF assms(4)] by blast
  obtain m1 where m1: "say s l3 = l3 @ [m1]" "\<not> noisy m1" using say_quiet by blast
  show ?thesis
  proof (cases r)
    case (Inl e)
    obtain n4 where n4: "co_log (sv_core sv) = say s l3 @ n4" "quiet n4"
      "br_to (co_bridge (sv_core sv)) < 0" "br_from (co_bridge (sv_core sv)) < 0"
      "br_pid (co_bridge (sv_core sv)) \<le> 0"
      using server_init_quiet [OF assms(5)] by blast
    let ?sv = "set_log (sys_close lfd (say t (co_log (sv_core sv)))) sv"
    obtain n5 where "server_drop ?sv = co_log (sv_core ?sv) @ n5" "quiet n5"
      using server_drop_quiet [of ?sv] n4 by (auto simp: set_log_def)
    moreover obtain m2 where "say t (co_log (sv_core sv)) = co_log (sv_core sv) @ [m2]" "\<not> noisy m2"
      using say_quiet by blast
    ultimately show ?thesis
      using Inl assms(2,3) n3 n4 m1 by (simp add: set_log_def sys_close_def)
  next
    case (Inr u)
    then have r: "r = Inr ()" by simp
    obtain ep where ep: "ep \<ge> 0" "co_reactor (sv_core sv) = ep" "sv_signals sv = sfd"
      "co_log (sv_core sv) = say s l3 @ [EvEpoll Epoll_Create, EvEpoll (Epoll_Add ep lfd EPOLLIN),
         EvEpoll (Epoll_Add ep sfd EPOLLIN)]"
      using server_init_new [OF assms(5) [unfolded r] sfd] by blast
    then have "started w log (n1 @ n2 @ n3 @ m1 # [EvEpoll Epoll_Create, EvEpoll (Epoll_Add ep lfd EPOLLIN),
         EvEpoll (Epoll_Add ep sfd EPOLLIN)]) lfd sfd sv"
      using sfd assms(2,3) n3 m1 by (simp add: started_def)
    with r show ?thesis by auto
  qed
qed

lemma main_cases:
  assumes "main w log = Done (code, log')"
  obtains (fails) new where "code = 1" "log' = log @ new" "quiet new"
  | (serves) pre lfd sfd sv where "started w log pre lfd sfd sv"
      "serve_forever w (e_getpid (w_env w) log) lfd sv = Done (code, log')"
proof -
  let ?env = "w_env w" and ?pid = "e_getpid (w_env w) log"
  let ?l1 = "say (''Starting AxiomVM guest appliance (PID: '' @ decimal (nat ?pid) @ '')'')
    (log @ [EvBoot Call_Getpid])"
  obtain n1 where n1: "start_mounts ?env ?pid ?l1 = log @ n1" "quiet n1"
    using start_mounts_quiet [of ?env ?pid ?l1] by (auto simp: say_def)
  obtain r2 l2 where s: "signalfd_create ?env [17, 15, 2] (log @ n1) = (r2, l2)" by fastforce
  then obtain n2 where n2: "l2 = (log @ n1) @ n2" "quiet n2"
    by (auto simp: signalfd_create_def Let_def split: if_splits)
  show thesis
  proof (cases r2)
    case (Inl e)
    with assms n1 s n2 have "code = 1 \<and> (\<exists>new. log' = log @ new \<and> quiet new)"
      by (auto simp: main_def say_def Let_def)
    with fails show ?thesis by blast
  next
    case sfd: (Inr sfd)
    obtain r3 l3 where l: "create_listener ?env DEFAULT_GUEST_PORT VMADDR_CID_ANY DEFAULT_BACKLOG l2 = (r3, l3)"
      by fastforce
    show ?thesis
    proof (cases r3)
      case (Inl e)
      with l obtain n3 where "l3 = l2 @ n3" "quiet n3" using start_listener_fails by blast
      with assms n1 s n2 sfd l Inl have "code = 1 \<and> (\<exists>new. log' = log @ new \<and> quiet new)"
        by (auto simp: main_def say_def signalfd_drop_def sys_close_def Let_def)
      with fails show ?thesis by blast
    next
      case lfd: (Inr lfd)
      obtain r4 sv where i: "server_init ?env lfd sfd (server_new (say (''Virtio-vsock listener established on port ''
          @ decimal (unat DEFAULT_GUEST_PORT)) l3)) = (r4, sv)" by fastforce
      note c = main_listening [OF s [unfolded sfd n2(1)] n1(2) n2(2) l [unfolded lfd n2(1)] i]
      have m: "main w log = (case r4 of Inl e \<Rightarrow> Done (1, server_drop (set_log (sys_close lfd
          (say (''Fatal: Server initialization failed: '' @ to_string_view e) (co_log (sv_core sv)))) sv))
        | Inr _ \<Rightarrow> serve_forever w ?pid lfd sv)"
        using n1 s sfd l lfd i by (simp add: main_def Let_def)
      show ?thesis
      proof (cases r4)
        case (Inl e)
        let ?t = "''Fatal: Server initialization failed: '' @ to_string_view e"
        obtain new where new: "server_drop (set_log (sys_close lfd (say ?t (co_log (sv_core sv)))) sv) = log @ new"
          "quiet new"
          using c [where t = ?t] Inl by auto
        have "code = 1" "log' = log @ new" using assms m Inl new(1) by simp_all
        then show ?thesis using fails new(2) by blast
      next
        case (Inr u)
        obtain pre where "started w log pre lfd sfd sv" using c Inr by auto
        moreover have "serve_forever w ?pid lfd sv = Done (code, log')" using assms m Inr by simp
        ultimately show ?thesis by (rule serves)
      qed
    qed
  qed
qed

section \<open>The properties\<close>



definition server_view :: "server \<Rightarrow> (int \<times> byte list) list \<times> core" where
  "server_view sv = (map slot_view (sv_clients sv), sv_core sv)"

text \<open>
  C3. An event of a client refines its specification on byte lists: one read of at most 4096 bytes;
  the client is dropped when the read fails, ends the stream or overflows the 65536 bytes of the
  buffer, and otherwise all complete frames are served; a hang-up drops the client after that one
  read, whatever is still unread. The other clients keep their descriptors and bytes.
\<close>

theorem client_event_serves:
  assumes "server_ok sv" and "fd \<ge> 0" and "find_slot_by_fd fd (sv_clients sv) = Some i"
  shows "run_map server_view (handle_client_event w fd flags sv) =
    run_map (\<lambda>(v, c). ((map slot_view (sv_clients sv)) [i := v], c))
      (serve_event w flags fd (fv_as_span (cl_rx (sv_clients sv ! i))) (sv_core sv))"
proof -
  have i: "i < length (sv_clients sv)" "cl_fd (sv_clients sv ! i) = fd"
    using find_slot_Some [OF assms(3)] by simp_all
  note r = slot_event_refines [OF slot_ok_nth [OF assms(1) i(1)], of w flags "sv_core sv", unfolded i(2), OF assms(2)]
  show ?thesis unfolding r [symmetric]
    by (cases "slot_event w flags (sv_clients sv ! i) (sv_core sv)")
      (auto simp: handle_client_event_def assms(3) server_view_def set_slot_def map_update slot_view_def)
qed

text \<open>
  C4. Invariant of the server: in every state that an initialised server can reach there are four
  slots, no two open slots share a descriptor, every receive buffer is within its 65536 bytes and
  holds an incomplete frame and nothing else, and a closed slot holds no bytes.
\<close>

theorem reachable_server_ok:
  assumes "reachable w sv"
  shows "server_ok sv"
  by (rule reachable_ok [OF assms])

text \<open>
  C18. A stop signal ends the run: when one of the events of a wait is the signal descriptor and the
  first read of it delivers SIGTERM or SIGINT, the events of that wait are the last ones; whatever
  comes before and after the signal in the batch, run cleans up and returns success.
\<close>

theorem stop_signal_ends_run:
  assumes "co_running (sv_core sv)" and "0 < e_fuel (w_env w)"
    and "reactor_wait (w_env w) (co_reactor (sv_core sv)) 16 1000 (co_log (sv_core sv))
      = (Inr (before @ (sv_signals sv, flags) # after), log)"
    and "handle_events w before (set_log log sv) = Done sv1"
    and "fst (read_signals (w_env w) (sv_signals sv) 16 (co_log (sv_core sv1))) = Inr sigs"
    and "SIGTERM \<in> set sigs \<or> SIGINT \<in> set sigs"
    and "handle_events w ((sv_signals sv, flags) # after) sv1 = Done sv2"
  shows "server_run w sv = Done (Inr (), cleanup (w_env w) sv2)"
proof -
  have sig: "sv_signals sv1 = sv_signals sv"
    using handle_events_evolves [OF assms(4)] by (simp add: sv_evolves_def set_log_def)
  with assms(7) obtain sv3 where h: "handle_signals (w_env w) sv1 = Done sv3"
    and a: "handle_events w after sv3 = Done sv2"
    by (auto simp: run_bind_Done handle_event_def)
  have "\<not> co_running (sv_core sv3)"
    by (rule handle_signals_stop [OF h]) (use assms(5,6) sig in simp_all)
  then have stopped: "\<not> co_running (sv_core sv2)" by (rule handle_events_stopped [OF a])
  obtain fuel where fuel: "e_fuel (w_env w) = Suc fuel" using assms(2) by (cases "e_fuel (w_env w)") auto
  have "run_loop w fuel sv2 = Done (Inr (), cleanup (w_env w) sv2)"
    using stopped by (cases fuel) simp_all
  then show ?thesis
    using assms(1,3,4,7) by (simp add: server_run_def fuel handle_events_append)
qed


text \<open>
  C20. How the guest ends. Exit code 0: the server was initialised with a listener bound to port
  5200, the signal descriptor and the reactor, and after the run exactly these are closed (with the
  pipes of a browser that is still there between them); the machine is powered off exactly when the
  guest is PID 1. Any other exit has code 1: nothing was waited for and the machine stays on.
\<close>

theorem main_exit:
  assumes "main w log = Done (code, log')"
  shows "if code = 0
    then \<exists>pre mid post lfd sfd ep fds. log' = log @ pre @ mid @ post \<and> quiet pre \<and>
      EvBoot (Call_Bind lfd 5200 (- 1)) \<in> set pre \<and> EvEpoll (Epoll_Add ep lfd EPOLLIN) \<in> set pre \<and>
      EvEpoll (Epoll_Add ep sfd EPOLLIN) \<in> set pre \<and> closed post = lfd # fds @ [sfd, ep] \<and>
      (EvBoot Call_Reboot \<in> set post \<longleftrightarrow> e_getpid (w_env w) log = 1)
    else code = 1 \<and> (\<exists>new. log' = log @ new \<and> quiet new)"
  using assms
proof (cases rule: main_cases)
  case fails
  then show ?thesis by auto
next
  case (serves pre lfd sfd sv)
  then obtain mid post fds where a: "code = 0" "log' = co_log (sv_core sv) @ mid @ post"
    "closed post = lfd # fds @ [sv_signals sv, co_reactor (sv_core sv)]"
    "EvBoot Call_Reboot \<in> set post \<longleftrightarrow> e_getpid (w_env w) log = 1"
    using serve_forever_end [OF serves(2)] by (auto simp: started_def)
  let ?ep = "co_reactor (sv_core sv)"
  have end_ok: "log' = log @ pre @ mid @ post \<and> quiet pre \<and>
      EvBoot (Call_Bind lfd 5200 (- 1)) \<in> set pre \<and> EvEpoll (Epoll_Add ?ep lfd EPOLLIN) \<in> set pre \<and>
      EvEpoll (Epoll_Add ?ep sfd EPOLLIN) \<in> set pre \<and> closed post = lfd # fds @ [sfd, ?ep] \<and>
      (EvBoot Call_Reboot \<in> set post \<longleftrightarrow> e_getpid (w_env w) log = 1)"
    using a(2-4) serves(1) by (simp add: started_def DEFAULT_GUEST_PORT_def VMADDR_CID_ANY_def)
  show ?thesis by (subst if_P [OF a(1)]) (intro exI, rule end_ok)
qed

section \<open>An instance\<close>

text \<open>
  A kernel with a listener (4), a signal descriptor (5), a reactor (3) and one client (7) that sends
  pings; every wait reports the signal descriptor, whose first read delivers SIGTERM.
\<close>

definition ping_header :: frame_header where
  "ping_header = \<lparr>fh_magic = WIRE_MAGIC, fh_opcode = opcode_val Ping, fh_request_id = 9, fh_payload_len = 0\<rparr>"

definition ping_env :: env where
  "ping_env = dead_env\<lparr>e_fuel := 8, e_read := (\<lambda>log fd n. Ok (fh_bytes ping_header)),
     e_write := (\<lambda>log fd data. Ok (length data)), e_epoll_create := (\<lambda>_. 3), e_epoll_ctl := (\<lambda>_ _ _. True),
     e_epoll_wait := (\<lambda>_ _. Some [(5, EPOLLIN)]), e_accept := (\<lambda>_ _. 7),
     e_signals := (\<lambda>log fd. if EvSignal (Call_Signal_Read 5) \<in> set log then None else Some [SIGTERM]),
     e_sigmask := (\<lambda>_. True), e_signalfd := (\<lambda>_. 5), e_socket := (\<lambda>_. 4), e_sockopt := (\<lambda>_. True),
     e_bind := (\<lambda>_. True), e_listen := (\<lambda>_. True)\<rparr>"

definition ping_world :: "nat world" where
  "ping_world = \<lparr>w_env = ping_env, w_dirs = no_dirs, w_ts = tiny_ts ''module'' ''identifier'',
     w_ts_fuel = 4, w_parser = True\<rparr>"

lemma ping_simps [simp]:
  "w_env ping_world = ping_env" "e_fuel ping_env = 8" "e_read ping_env log fd n = Ok (fh_bytes ping_header)"
  "e_write ping_env log fd data = Ok (length data)" "e_epoll_create ping_env log = 3"
  "e_epoll_ctl ping_env log a b" "e_epoll_wait ping_env log t = Some [(5, EPOLLIN)]"
  "e_accept ping_env log fd = 7" "e_sigmask ping_env log" "e_signalfd ping_env log = 5"
  "e_signals ping_env log fd = (if EvSignal (Call_Signal_Read 5) \<in> set log then None else Some [SIGTERM])"
  "e_socket ping_env log = 4" "e_sockopt ping_env log" "e_bind ping_env log" "e_listen ping_env log"
  "e_getpid ping_env log = 2"
  by (simp_all add: ping_world_def ping_env_def dead_env_def)

definition ping_slot :: "byte list \<Rightarrow> slot" where
  "ping_slot bs = \<lparr>cl_fd = 7, cl_rx = \<lparr>fv_data = acopy (anew BUFFER_CAPACITY 0) 0 bs, fv_size = length bs\<rparr>\<rparr>"

lemma ping_slot_view [simp]: "cl_fd (ping_slot bs) = 7" "fv_as_span (cl_rx (ping_slot bs)) = bs"
  "fv_size (cl_rx (ping_slot bs)) = length bs"
  by (simp_all add: ping_slot_def fv_as_span_def apre_acopy_0)

lemma ping_slot_fits: "length bs \<le> BUFFER_CAPACITY \<Longrightarrow> slot_fits (ping_slot bs)"
  by (simp add: slot_fits_def ping_slot_def fv_wf_def fv_capacity_def)

lemma ping_write: "bs \<noteq> [] \<Longrightarrow> write_all ping_env fd bs log = Done (True, log @ [EvWrite fd bs])"
  by (simp add: write_all_def sys_write_def eval_nat_numeral)

lemma ping_front: "front_of (fh_bytes ping_header) = Frame ping_header"
  using decode_header_bytes [of ping_header "[]"]
  by (simp add: front_of_def frame_len_def ping_header_def HEADER_SIZE_def BUFFER_CAPACITY_def)

lemma ping_parse: "parse_frames (fh_bytes ping_header) = ([(ping_header, [])], Some [])"
  using ping_front
  by (subst parse_frames.simps) (simp add: frame_len_def ping_header_def HEADER_SIZE_def parse_frames.simps [of "[]"])

lemma ping_opcode: "opcode_of (fh_opcode ping_header) = Some Ping"
  by (simp add: ping_header_def del: opcode_val.simps)

lemma ping_answered: "\<exists>log. dispatch_frame ping_world fd ping_header payload c = Done (True, c\<lparr>co_log := log\<rparr>)"
proof -
  let ?h = "\<lparr>fh_magic = WIRE_MAGIC, fh_opcode = opcode_val Pong, fh_request_id = fh_request_id ping_header,
    fh_payload_len = 0\<rparr>"
  have "fst (encode_header ?h (anew HEADER_SIZE 0)) = Inr HEADER_SIZE"
    using fh.encode_room [of "anew HEADER_SIZE 0" ?h] by (simp add: encode_header_def)
  then obtain buf where b: "encode_header ?h (anew HEADER_SIZE 0) = (Inr HEADER_SIZE, buf)"
    by (metis prod.collapse)
  have "apre buf HEADER_SIZE \<noteq> []" by (simp add: apre_def HEADER_SIZE_def)
  then have "\<exists>log. send_parts ping_env fd [apre buf HEADER_SIZE] c = Done (True, c\<lparr>co_log := log\<rparr>)"
    by (auto simp: ping_write)
  with b show ?thesis
    by (simp add: dispatch_frame_def ping_opcode send_pong_def del: send_parts.simps opcode_val.simps)
qed

lemma ping_processed:
  "\<exists>s' c'. process_client_frames ping_world (ping_slot (fh_bytes ping_header)) c = Done (s', c')"
proof -
  obtain log where "dispatch_frame ping_world 7 ping_header [] c = Done (True, c\<lparr>co_log := log\<rparr>)"
    using ping_answered by blast
  then have "serve ping_world 7 (fh_bytes ping_header) c = Done ((7, []), c\<lparr>co_log := log\<rparr>)"
    by (simp add: serve_def ping_parse)
  with process_refines [OF ping_slot_fits, of "fh_bytes ping_header" ping_world c] show ?thesis
    by (cases "process_client_frames ping_world (ping_slot (fh_bytes ping_header)) c")
      (auto simp: BUFFER_CAPACITY_def)
qed



definition ping_server :: server where
  "ping_server = (server_new [])\<lparr>sv_clients := ping_slot [] # replicate 3 slot_init\<rparr>"

lemma ping_server_ok: "server_ok ping_server"
  using ping_slot_fits [of "[]"]
  by (simp add: server_ok_def ping_server_def open_fds_def slot_ok_def MAX_CLIENTS_def eval_nat_numeral)
    (simp add: slot_init_def slot_fits_def slot_view_def)

theorem client_event_serves_witness:
  "run_map server_view (handle_client_event ping_world 7 EPOLLIN ping_server) =
   run_map (\<lambda>(v, c). ((map slot_view (sv_clients ping_server)) [0 := v], c))
     (serve_event ping_world EPOLLIN 7 (fv_as_span (cl_rx (sv_clients ping_server ! 0))) (sv_core ping_server))"
  by (rule client_event_serves [OF ping_server_ok]) (simp_all add: ping_server_def)

text \<open>The initialised server, and the state after the stop signal.\<close>

definition ping_start :: "log \<Rightarrow> server" where
  "ping_start log = snd (server_init ping_env 4 5 (server_new log))"

lemma ping_init: "server_init ping_env 4 5 (server_new log) = (Inr (), ping_start log)"
  by (simp add: ping_start_def server_init_def server_new_def reactor_create_def reactor_assign_def
      signalfd_assign_def reactor_add_def reactor_ctl_def Let_def)

lemma ping_start_simps [simp]:
  "sv_listener (ping_start log) = 4" "sv_signals (ping_start log) = 5" "co_running (sv_core (ping_start log))"
  "sv_clients (ping_start log) = replicate MAX_CLIENTS slot_init"
  "co_log (sv_core (ping_start log)) = log @ [EvEpoll Epoll_Create, EvEpoll (Epoll_Add 3 4 EPOLLIN),
     EvEpoll (Epoll_Add 3 5 EPOLLIN)]"
  by (simp_all add: ping_start_def server_init_def server_new_def reactor_create_def reactor_assign_def
      signalfd_assign_def reactor_add_def reactor_ctl_def Let_def)

theorem reachable_server_ok_witness: "server_ok (handle_accept ping_env (ping_start []))"
proof (rule reachable_server_ok [of ping_world])
  have "reachable ping_world (ping_start [])"
    by (rule reachable.start [of _ 4 5 "[]"]) (simp add: ping_init)
  then show "reachable ping_world (handle_accept ping_env (ping_start []))"
    by (rule reachable.event [of _ _ "(4, EPOLLIN)"])
      (simp_all add: kernel_event_def open_fds_def handle_event_def slot_init_def)
qed

definition ping_stopped :: "server \<Rightarrow> server" where
  "ping_stopped sv = sv\<lparr>sv_core := (sv_core sv)\<lparr>co_running := False, co_log := co_log (sv_core sv) @
     [EvSignal (Call_Signal_Read 5), EvSignal (Call_Signal_Read 5)]\<rparr>\<rparr>"

lemma ping_signals:
  assumes "sv_signals sv = 5" "EvSignal (Call_Signal_Read 5) \<notin> set (co_log (sv_core sv))"
  shows "handle_signals ping_env sv = Done (ping_stopped sv)"
  using assms signals_loop.simps(2) [of ping_env 7] signals_loop.simps(2) [of ping_env 6]
  by (simp add: handle_signals_def read_signals_def set_log_def ping_stopped_def SIGTERM_def SIGCHLD_def)

lemma ping_wait: "reactor_wait ping_env ep 16 1000 log = (Inr [(5, EPOLLIN)], log @ [EvEpoll (Epoll_Wait ep 1000)])"
  by (simp add: reactor_wait_def)

lemma ping_batch:
  assumes "sv_signals sv = 5" "EvSignal (Call_Signal_Read 5) \<notin> set (co_log (sv_core sv))"
  shows "handle_events ping_world [(5, EPOLLIN)] sv = Done (ping_stopped sv)"
  using ping_signals [OF assms] assms(1) by (simp add: handle_event_def)

lemma ping_run:
  assumes "sv_signals sv = 5" "co_running (sv_core sv)" "EvSignal (Call_Signal_Read 5) \<notin> set (co_log (sv_core sv))"
  shows "\<exists>sv2. server_run ping_world sv = Done (Inr (), cleanup ping_env sv2)"
  using assms run_loop.simps(2) [of ping_world 7] run_loop.simps(2) [of ping_world 6]
    ping_batch [of "set_log (co_log (sv_core sv) @ [EvEpoll (Epoll_Wait (co_reactor (sv_core sv)) 1000)]) sv"]
  by (simp add: server_run_def ping_wait set_log_def ping_stopped_def del: handle_events.simps) blast

theorem stop_signal_ends_run_witness:
  "\<exists>sv2. server_run ping_world (ping_start []) = Done (Inr (), cleanup (w_env ping_world) sv2)"
proof (rule exI, rule stop_signal_ends_run)
  let ?log = "co_log (sv_core (ping_start [])) @ [EvEpoll (Epoll_Wait (co_reactor (sv_core (ping_start []))) 1000)]"
  show "reactor_wait (w_env ping_world) (co_reactor (sv_core (ping_start []))) 16 1000 (co_log (sv_core (ping_start [])))
      = (Inr ([] @ (sv_signals (ping_start []), EPOLLIN) # []), ?log)"
    by (simp add: ping_wait)
  show "handle_events ping_world [] (set_log ?log (ping_start [])) = Done (set_log ?log (ping_start []))" by simp
  show "fst (read_signals (w_env ping_world) (sv_signals (ping_start [])) 16 (co_log (sv_core (set_log ?log (ping_start [])))))
      = Inr [SIGTERM]"
    by (simp add: read_signals_def set_log_def)
  show "handle_events ping_world [(sv_signals (ping_start []), EPOLLIN)] (set_log ?log (ping_start []))
      = Done (ping_stopped (set_log ?log (ping_start [])))"
    using ping_batch [of "set_log ?log (ping_start [])"] by (simp add: set_log_def del: handle_events.simps)
qed simp_all


lemma ping_serve:
  assumes "sv_signals sv = 5" "co_running (sv_core sv)" "EvSignal (Call_Signal_Read 5) \<notin> set (co_log (sv_core sv))"
  shows "\<exists>log'. serve_forever ping_world pid 4 sv = Done (0, log')"
  using assms ping_run [of "set_log (say ''Entering steady-state reactor loop'' (co_log (sv_core sv))) sv"]
  by (auto simp: serve_forever_def set_log_def say_def Let_def)

lemma ping_main: "\<exists>log'. main ping_world [] = Done (0, log')"
proof -
  let ?l1 = "say (''Starting AxiomVM guest appliance (PID: '' @ decimal (nat 2) @ '')'') [EvBoot Call_Getpid]"
  let ?l2 = "?l1 @ [EvSignal (Call_Sigmask [17, 15, 2]), EvSignal Call_Signalfd]"
  let ?l3 = "?l2 @ [EvBoot Call_Socket, EvBoot (Call_Setsockopt 4),
    EvBoot (Call_Bind 4 DEFAULT_GUEST_PORT VMADDR_CID_ANY), EvBoot (Call_Listen 4 DEFAULT_BACKLOG)]"
  let ?l4 = "say (''Virtio-vsock listener established on port '' @ decimal (unat DEFAULT_GUEST_PORT)) ?l3"
  have "signalfd_create ping_env [17, 15, 2] ?l1 = (Inr 5, ?l2)" by (simp add: signalfd_create_def Let_def)
  moreover have "create_listener ping_env DEFAULT_GUEST_PORT VMADDR_CID_ANY DEFAULT_BACKLOG ?l2 = (Inr 4, ?l3)"
    by (simp add: create_listener_def Let_def)
  ultimately have "main ping_world [] = serve_forever ping_world 2 4 (ping_start ?l4)"
    by (simp add: main_def start_mounts_def ping_init)
  moreover have "EvSignal (Call_Signal_Read 5) \<notin> set (co_log (sv_core (ping_start ?l4)))"
    by (simp add: say_def)
  ultimately show ?thesis using ping_serve [of "ping_start ?l4" 2] by simp
qed

theorem main_exit_witness:
  "\<exists>log' pre mid post lfd sfd ep fds. main ping_world [] = Done (0, log') \<and> log' = pre @ mid @ post \<and>
    closed post = lfd # fds @ [sfd, ep] \<and> EvBoot Call_Reboot \<notin> set post"
proof -
  obtain log' where "main ping_world [] = Done (0, log')" using ping_main by blast
  moreover from main_exit [OF this, simplified] obtain pre mid post lfd sfd ep fds where
    "log' = pre @ mid @ post" "closed post = lfd # fds @ [sfd, ep]" "EvBoot Call_Reboot \<notin> set post"
    by auto
  ultimately show ?thesis by blast
qed

end
